theory Spec2Isabelle
  imports Complex_Main "HOL-Library.AList" "HOL-Library.Log_Nat" "HOL-Library.Multiset"
begin

section \<open>Data model\<close>

text \<open>
  The tracker keeps, per track, a progress record in local storage: a JSON object from
  problem id to an attempt statistic. The record is modelled as an association list in the
  order in which \<^verbatim>\<open>Object.values\<close> and \<^verbatim>\<open>Object.entries\<close> enumerate it.

  Counts are JavaScript numbers holding non-negative integers. They are modelled as
  \<^typ>\<open>nat\<close>: below \<open>2^53\<close> the additions of the program are exact in binary64. A time
  stamp is the millisecond time value that \<^verbatim>\<open>Date.now()\<close> returns, an \<^typ>\<open>int\<close>;
  \<^verbatim>\<open>last: null\<close> and a missing field are \<open>None\<close>. The field \<^verbatim>\<open>last\<close> is
  \<open>last_time\<close> here, \<open>last\<close> being the last element of a list in HOL.
\<close>

record AttemptStat =
  attempts :: nat
  passes :: nat
  last_time :: "int option"

type_synonym ProgressRecord = "(string \<times> AttemptStat) list"

record Test =
  input :: string
  expected :: string

record Problem =
  pid :: string
  title :: string
  topic :: string
  difficulty :: string
  statement :: string
  explain :: "string option"
  tests :: "Test list"

section \<open>The attempt form (js/js/core.js)\<close>

subsection \<open>normalize\<close>







subsection \<open>The submit handler of renderProblem\<close>





text \<open>
  Recording the attempt:
  \<^verbatim>\<open>const stat = progress[p.id] || { attempts: 0, passes: 0, last: null };
  stat.attempts += 1; if (passAll) stat.passes += 1; stat.last = Date.now();
  progress[p.id] = stat; Store.set(trackKey, progress);\<close>

  \<^verbatim>\<open>progress\<close> is a plain object, so \<^verbatim>\<open>progress[p.id]\<close> reads the record's own entry
  when it has one and otherwise goes on to \<^verbatim>\<open>Object.prototype\<close>. For the names that the
  language defines there (\<^verbatim>\<open>constructor\<close>, \<^verbatim>\<open>toString\<close>, ...) the value read is a
  function, or for \<^verbatim>\<open>__proto__\<close> the prototype itself: it is truthy, so the fresh
  statistic is not taken, the increments are made on that value (giving \<^verbatim>\<open>NaN\<close>), and
  \<^verbatim>\<open>JSON.stringify\<close> leaves a function-valued property out (the assignment to
  \<^verbatim>\<open>__proto__\<close> creates no property at all). The record that \<^verbatim>\<open>Store.set\<close> writes then
  has no entry for that id, and \<open>recordAttempt\<close> returns the record that is written.
\<close>

definition objectPrototypeKeys :: "string list" where
  "objectPrototypeKeys =
     [''constructor'', ''__defineGetter__'', ''__defineSetter__'', ''hasOwnProperty'',
      ''__lookupGetter__'', ''__lookupSetter__'', ''isPrototypeOf'', ''propertyIsEnumerable'',
      ''toString'', ''valueOf'', ''__proto__'', ''toLocaleString'']"

datatype Lookup = Own AttemptStat | Inherited | Absent

definition lookupProp :: "ProgressRecord \<Rightarrow> string \<Rightarrow> Lookup" where
  "lookupProp progress k =
     (case map_of progress k of
        Some s \<Rightarrow> Own s
      | None \<Rightarrow> if k \<in> set objectPrototypeKeys then Inherited else Absent)"

text \<open>
  \<^verbatim>\<open>progress[p.id] = stat\<close> replaces the value of an own entry where it stands. A new key
  that is an array index (the decimal text, without leading zeros, of an integer from 0
  to \<open>2^32 - 2\<close>) is enumerated among the array indices in ascending order, which come
  before all other keys; any other new key comes last.
\<close>

definition isDigit :: "char \<Rightarrow> bool" where
  "isDigit c = (48 \<le> (of_char c :: nat) \<and> (of_char c :: nat) \<le> 57)"

definition digitsValue :: "string \<Rightarrow> int" where
  "digitsValue k = foldl (\<lambda>n c. 10 * n + (of_char c - 48)) 0 k"

definition isArrayIndex :: "string \<Rightarrow> bool" where
  "isArrayIndex k =
     (k \<noteq> [] \<and> list_all isDigit k \<and> (hd k \<noteq> CHR ''0'' \<or> length k = 1)
      \<and> digitsValue k < 4294967295)"

fun insertIndex :: "string \<Rightarrow> AttemptStat \<Rightarrow> ProgressRecord \<Rightarrow> ProgressRecord" where
  "insertIndex k v [] = [(k, v)]"
| "insertIndex k v (e # es) =
     (if isArrayIndex (fst e) \<and> digitsValue (fst e) < digitsValue k
      then e # insertIndex k v es
      else (k, v) # e # es)"

definition setProp :: "string \<Rightarrow> AttemptStat \<Rightarrow> ProgressRecord \<Rightarrow> ProgressRecord" where
  "setProp k v progress =
     (if map_of progress k \<noteq> None then AList.update k v progress
      else if isArrayIndex k then insertIndex k v progress
      else progress @ [(k, v)])"

definition freshStat :: AttemptStat where
  "freshStat = \<lparr>attempts = 0, passes = 0, last_time = None\<rparr>"

definition bump :: "AttemptStat \<Rightarrow> bool \<Rightarrow> int \<Rightarrow> AttemptStat" where
  "bump stat passAll now =
     (let stat1 = stat\<lparr>attempts := attempts stat + 1\<rparr>;
          stat2 = (if passAll then stat1\<lparr>passes := passes stat1 + 1\<rparr> else stat1)
      in stat2\<lparr>last_time := Some now\<rparr>)"

definition recordAttempt :: "ProgressRecord \<Rightarrow> string \<Rightarrow> bool \<Rightarrow> int \<Rightarrow> ProgressRecord" where
  "recordAttempt progress k passAll now =
     (case lookupProp progress k of
        Own s \<Rightarrow> setProp k (bump s passAll now) progress
      | Absent \<Rightarrow> setProp k (bump freshStat passAll now) progress
      | Inherited \<Rightarrow> progress)"

text \<open>The handler returns the verdict and the progress record it stores.\<close>




section \<open>Dates (the ECMAScript Date object)\<close>

text \<open>
  The analytics read the clock with \<^verbatim>\<open>new Date()\<close>, move a date with
  \<^verbatim>\<open>d.setDate(today.getDate() - i)\<close> and name a day by
  \<^verbatim>\<open>d.toISOString().slice(0, 10)\<close>. These are modelled after the ECMAScript definitions:
  a time value is a number of milliseconds since 1970-01-01T00:00:00Z, a Date holds a
  time value within \<open>\<plusminus>8.64e15\<close> or is invalid (\<open>None\<close>), and the calendar functions
  are those of the specification (\<open>Day\<close>, \<open>DayFromYear\<close>, \<open>YearFromTime\<close>,
  \<open>MonthFromTime\<close>, \<open>DateFromTime\<close>), here on day numbers.
\<close>

datatype jsError = RangeError | SyntaxError | FetchError

definition msPerDay :: int where
  "msPerDay = 86400000"

definition maxTime :: int where
  "maxTime = 8640000000000000"

definition validTime :: "int \<Rightarrow> bool" where
  "validTime t = (- maxTime \<le> t \<and> t \<le> maxTime)"

definition TimeClip :: "int \<Rightarrow> int option" where
  "TimeClip t = (if validTime t then Some t else None)"

text \<open>\<^verbatim>\<open>new Date(value)\<close> for a number.\<close>

definition newDate :: "int \<Rightarrow> int option" where
  "newDate v = TimeClip v"

definition Day :: "int \<Rightarrow> int" where
  "Day t = t div msPerDay"

definition TimeWithinDay :: "int \<Rightarrow> int" where
  "TimeWithinDay t = t mod msPerDay"

definition MakeDate :: "int \<Rightarrow> int \<Rightarrow> int" where
  "MakeDate day time = day * msPerDay + time"

definition DaysInYear :: "int \<Rightarrow> int" where
  "DaysInYear y =
     (if y mod 4 \<noteq> 0 then 365 else if y mod 100 \<noteq> 0 then 366
      else if y mod 400 \<noteq> 0 then 365 else 366)"

definition DayFromYear :: "int \<Rightarrow> int" where
  "DayFromYear y =
     365 * (y - 1970) + (y - 1969) div 4 - (y - 1901) div 100 + (y - 1601) div 400"

definition InLeapYear :: "int \<Rightarrow> int" where
  "InLeapYear y = (if DaysInYear y = 366 then 1 else 0)"

text \<open>
  \<open>YearFromTime\<close> is the largest year \<open>y\<close> with \<open>DayFromYear y\<close> at or before the day.
  It is computed by a search upwards from a year that is not after it; the search ends
  because each year has at least 365 days.
\<close>

lemma div_step:
  assumes "0 < (k::int)"
  shows "y div k - (y - 1) div k = (if y mod k = 0 then 1 else 0)"
proof (cases "y mod k = 0")
  case True
  have e: "y - 1 = k * (y div k - 1) + (k - 1)"
    using True div_mult_mod_eq [of y k] by (simp add: algebra_simps)
  have "(y - 1) div k = y div k - 1"
  proof (rule int_div_pos_eq)
    show "y - 1 = k * (y div k - 1) + (k - 1)" by (rule e)
    show "0 \<le> k - 1" using assms by simp
    show "k - 1 < k" by simp
  qed
  then show ?thesis using True by simp
next
  case False
  have r: "0 < y mod k" "y mod k < k"
    using False assms pos_mod_sign [of k y] pos_mod_bound [of k y] by (simp_all add: less_le)
  have e: "y - 1 = k * (y div k) + (y mod k - 1)"
    using div_mult_mod_eq [of y k] by (simp add: algebra_simps)
  have "(y - 1) div k = y div k"
  proof (rule int_div_pos_eq)
    show "y - 1 = k * (y div k) + (y mod k - 1)" by (rule e)
    show "0 \<le> y mod k - 1" using r by simp
    show "y mod k - 1 < k" using r by simp
  qed
  then show ?thesis using False by simp
qed

lemma div_shift: "(y - c * k) div k = y div k - (c::int)" if "k \<noteq> 0"
  using that div_mult_self1 [of k y "- c"] by (simp add: algebra_simps)

lemma DayFromYear_alt:
  "DayFromYear y = 365 * (y - 1970) + ((y - 1) div 4 - 492) - ((y - 1) div 100 - 19)
      + ((y - 1) div 400 - 4)"
proof -
  have a: "(y - 1969) div 4 = (y - 1) div 4 - 492"
    using div_shift [of 4 "y - 1" 492] by simp
  have b: "(y - 1901) div 100 = (y - 1) div 100 - 19"
    using div_shift [of 100 "y - 1" 19] by simp
  have c: "(y - 1601) div 400 = (y - 1) div 400 - 4"
    using div_shift [of 400 "y - 1" 4] by simp
  show ?thesis by (simp only: DayFromYear_def a b c)
qed

lemma mod100_4: "(y::int) mod 100 = 0 \<Longrightarrow> y mod 4 = 0"
proof -
  assume "y mod 100 = 0"
  then have "100 dvd y" by (simp add: mod_eq_0_iff_dvd)
  moreover have "(4::int) dvd 100" by simp
  ultimately have "4 dvd y" by (rule dvd_trans [rotated])
  then show ?thesis by (simp add: mod_eq_0_iff_dvd)
qed

lemma mod400_100: "(y::int) mod 400 = 0 \<Longrightarrow> y mod 100 = 0"
proof -
  assume "y mod 400 = 0"
  then have "400 dvd y" by (simp add: mod_eq_0_iff_dvd)
  moreover have "(100::int) dvd 400" by simp
  ultimately have "100 dvd y" by (rule dvd_trans [rotated])
  then show ?thesis by (simp add: mod_eq_0_iff_dvd)
qed

lemma DayFromYear_Suc: "DayFromYear (y + 1) = DayFromYear y + DaysInYear y"
proof -
  define b4 where "b4 = (y mod 4 = 0)"
  define b100 where "b100 = (y mod 100 = 0)"
  define b400 where "b400 = (y mod 400 = 0)"
  define a4 where "a4 = y div 4"
  define a100 where "a100 = y div 100"
  define a400 where "a400 = y div 400"
  define p4 where "p4 = (y - 1) div 4"
  define p100 where "p100 = (y - 1) div 100"
  define p400 where "p400 = (y - 1) div 400"
  have s4: "a4 - p4 = (if b4 then 1 else 0)"
    unfolding a4_def p4_def b4_def by (rule div_step) simp
  have s100: "a100 - p100 = (if b100 then 1 else 0)"
    unfolding a100_def p100_def b100_def by (rule div_step) simp
  have s400: "a400 - p400 = (if b400 then 1 else 0)"
    unfolding a400_def p400_def b400_def by (rule div_step) simp
  have i1: "b100 \<longrightarrow> b4"
    unfolding b100_def b4_def using mod100_4 [of y] by blast
  have i2: "b400 \<longrightarrow> b100"
    unfolding b400_def b100_def using mod400_100 [of y] by blast
  have diy: "DaysInYear y =
      (if \<not> b4 then 365 else if \<not> b100 then 366 else if \<not> b400 then 365 else 366)"
    unfolding DaysInYear_def b4_def b100_def b400_def by (rule refl)
  have "y + 1 - 1 = y" by simp
  then have A: "DayFromYear (y + 1) = 365 * (y + 1 - 1970) + (a4 - 492) - (a100 - 19) + (a400 - 4)"
    unfolding a4_def a100_def a400_def by (simp only: DayFromYear_alt [of "y + 1"])
  have B: "DayFromYear y = 365 * (y - 1970) + (p4 - 492) - (p100 - 19) + (p400 - 4)"
    unfolding p4_def p100_def p400_def by (rule DayFromYear_alt)
  show ?thesis
    unfolding A B diy using s4 s100 s400 i1 i2
    by (cases b4; cases b100; cases b400) simp_all
qed

lemma DaysInYear_ge: "365 \<le> DaysInYear y"
  by (simp add: DaysInYear_def)

lemma DaysInYear_le: "DaysInYear y \<le> 366"
  by (simp add: DaysInYear_def)

function yearSearch :: "int \<Rightarrow> int \<Rightarrow> int" where
  "yearSearch d y = (if DayFromYear (y + 1) \<le> d then yearSearch d (y + 1) else y)"
  by pat_completeness auto
termination
proof (relation "measure (\<lambda>(d, y). nat (d - DayFromYear (y + 1) + 1))")
  show "wf (measure (\<lambda>(d, y). nat (d - DayFromYear (y + 1) + 1)))" by simp
next
  fix d y :: int
  assume a: "DayFromYear (y + 1) \<le> d"
  have "DayFromYear (y + 1 + 1) = DayFromYear (y + 1) + DaysInYear (y + 1)"
    by (rule DayFromYear_Suc)
  then show "((d, y + 1), (d, y)) \<in> measure (\<lambda>(d, y). nat (d - DayFromYear (y + 1) + 1))"
    using a DaysInYear_ge [of "y + 1"] by simp
qed

declare yearSearch.simps [simp del]

definition YearFromDay :: "int \<Rightarrow> int" where
  "YearFromDay d = yearSearch d (1969 + (if 0 \<le> d then d div 366 else d div 365))"

text \<open>
  The start of the search, \<open>1969 + d div 366\<close> (and \<open>1969 + d div 365\<close> before 1970), is a
  year that starts on or before day \<open>d\<close> (lemma \<open>YearFromDay_start\<close> below).
\<close>

definition DayWithinYear :: "int \<Rightarrow> int" where
  "DayWithinYear d = d - DayFromYear (YearFromDay d)"

definition MonthFromDay :: "int \<Rightarrow> int \<Rightarrow> int" where
  "MonthFromDay leap n =
     (if n < 31 then 0 else if n < 59 + leap then 1 else if n < 90 + leap then 2
      else if n < 120 + leap then 3 else if n < 151 + leap then 4
      else if n < 181 + leap then 5 else if n < 212 + leap then 6
      else if n < 243 + leap then 7 else if n < 273 + leap then 8
      else if n < 304 + leap then 9 else if n < 334 + leap then 10 else 11)"

definition DateFromDay :: "int \<Rightarrow> int \<Rightarrow> int" where
  "DateFromDay leap n =
     (let m = MonthFromDay leap n in
      if m = 0 then n + 1 else if m = 1 then n - 30 else if m = 2 then n - 58 - leap
      else if m = 3 then n - 89 - leap else if m = 4 then n - 119 - leap
      else if m = 5 then n - 150 - leap else if m = 6 then n - 180 - leap
      else if m = 7 then n - 211 - leap else if m = 8 then n - 242 - leap
      else if m = 9 then n - 272 - leap else if m = 10 then n - 303 - leap
      else n - 333 - leap)"

text \<open>
  The text of \<^verbatim>\<open>toISOString\<close>: \<open>YYYY-MM-DDTHH:mm:ss.sssZ\<close>, the year with four digits
  from 0 to 9999 and with a sign and six digits otherwise. An invalid Date raises a
  \<open>RangeError\<close>.
\<close>

definition digitChar :: "int \<Rightarrow> char" where
  "digitChar n = ''0123456789'' ! nat n"

fun pad :: "nat \<Rightarrow> int \<Rightarrow> string" where
  "pad 0 n = []"
| "pad (Suc k) n = pad k (n div 10) @ [digitChar (n mod 10)]"

definition yearString :: "int \<Rightarrow> string" where
  "yearString y =
     (if 0 \<le> y \<and> y \<le> 9999 then pad 4 y
      else (if y < 0 then ''-'' else ''+'') @ pad 6 \<bar>y\<bar>)"

definition dateString :: "int \<Rightarrow> string" where
  "dateString d =
     (let y = YearFromDay d; leap = InLeapYear y; n = DayWithinYear d
      in yearString y @ ''-'' @ pad 2 (MonthFromDay leap n + 1) @ ''-''
         @ pad 2 (DateFromDay leap n))"

definition timeString :: "int \<Rightarrow> string" where
  "timeString t =
     pad 2 (t div 3600000 mod 24) @ '':'' @ pad 2 (t div 60000 mod 60) @ '':''
     @ pad 2 (t div 1000 mod 60) @ ''.'' @ pad 3 (t mod 1000)"

definition isoText :: "int \<Rightarrow> string" where
  "isoText t = dateString (Day t) @ ''T'' @ timeString t @ ''Z''"

definition toISOString :: "int option \<Rightarrow> jsError + string" where
  "toISOString d = (case d of None \<Rightarrow> Inl RangeError | Some t \<Rightarrow> Inr (isoText t))"

text \<open>\<^verbatim>\<open>d.toISOString().slice(0, 10)\<close>, the day key of the analytics.\<close>

definition isoDay :: "int option \<Rightarrow> jsError + string" where
  "isoDay d = (case toISOString d of Inl e \<Rightarrow> Inl e | Inr txt \<Rightarrow> Inr (take 10 txt))"

text \<open>
  The host's time zone. ECMAScript reads it through \<open>LocalTZA(t, isUTC)\<close>: the offset of
  local time from UTC in milliseconds, at the UTC time \<open>t\<close> (\<open>isUTC\<close> true, the field
  \<open>utcOffset\<close>) and at the local time \<open>t\<close> (\<open>isUTC\<close> false, the field \<open>localOffset\<close>).
  Both are functions of the time, since a zone with daylight saving changes its offset;
  a local time that the clocks skip or repeat is read with the offset before the change.
  \<open>LocalTime(t) = t + LocalTZA(t, true)\<close> and \<open>UTC(t) = t - LocalTZA(t, false)\<close>.
\<close>

record Host =
  utcOffset :: "int \<Rightarrow> int"
  localOffset :: "int \<Rightarrow> int"

definition LocalTime :: "Host \<Rightarrow> int \<Rightarrow> int" where
  "LocalTime host t = t + utcOffset host t"

definition UTC :: "Host \<Rightarrow> int \<Rightarrow> int" where
  "UTC host t = t - localOffset host t"

text \<open>
  \<^verbatim>\<open>const d = new Date(today); d.setDate(today.getDate() - i);\<close> goes to local time,
  takes the day \<open>i\<close> days before the local day (\<open>MakeDay\<close> of the local year and month
  with the date \<open>DateFromTime - i\<close>, which is the day number \<open>Day - i\<close>), keeps the time
  within the day and comes back to UTC through \<open>TimeClip\<close>, with the offset that the host
  has at that local time. An invalid Date stays invalid.
\<close>

definition setDateBack :: "Host \<Rightarrow> int \<Rightarrow> int \<Rightarrow> int option" where
  "setDateBack host today i =
     (case newDate today of
        None \<Rightarrow> None
      | Some t0 \<Rightarrow>
          (let t = LocalTime host t0;
               moved = MakeDate (Day t - i) (TimeWithinDay t)
           in TimeClip (UTC host moved)))"

text \<open>
  Hosts: one at a fixed offset from UTC, and one with a standard offset \<open>std\<close> and a
  daylight-saving offset \<open>dst\<close> that holds from the UTC time \<open>start\<close> up to the UTC time
  \<open>stop\<close>. On the local clock the saving offset then holds from \<open>start + dst\<close> (the end of
  the skipped hour) up to \<open>stop + dst\<close> (the end of the first pass through the repeated
  hour).
\<close>

definition fixedHost :: "int \<Rightarrow> Host" where
  "fixedHost tza = \<lparr>utcOffset = (\<lambda>t. tza), localOffset = (\<lambda>t. tza)\<rparr>"

definition dstHost :: "int \<Rightarrow> int \<Rightarrow> int \<Rightarrow> int \<Rightarrow> Host" where
  "dstHost std dst start stop =
     \<lparr>utcOffset = (\<lambda>t. if start \<le> t \<and> t < stop then dst else std),
      localOffset = (\<lambda>t. if start + dst \<le> t \<and> t < stop + dst then dst else std)\<rparr>"

text \<open>
  The days and the time values of the years 0000 to 9999, which \<^verbatim>\<open>toISOString\<close>
  writes with four digits: from 0000-01-01T00:00:00Z up to 10000-01-01T00:00:00Z.
\<close>

definition inYears :: "int \<Rightarrow> bool" where
  "inYears d = (- 719528 \<le> d \<and> d < 2932897)"

definition inYearsT :: "int \<Rightarrow> bool" where
  "inYearsT t = (- 62167219200000 \<le> t \<and> t < 253402300800000)"

section \<open>Numbers\<close>

text \<open>
  A quotient and a product of JavaScript numbers are rounded to binary64, to the nearest
  value with a 53-bit significand, ties to the even one. \<open>binary64\<close> is that rounding
  on the rationals (the exponent range is not modelled: the quotients and products of
  counts below \<open>2^53\<close> are far from it). \<^verbatim>\<open>Math.round\<close> is exact: the nearest integer,
  a tie going up.
\<close>

definition roundHalfEven :: "rat \<Rightarrow> int" where
  "roundHalfEven x =
     (let f = \<lfloor>x\<rfloor>; r = x - of_int f
      in if r < 1 / 2 then f else if 1 / 2 < r then f + 1 else if even f then f else f + 1)"

definition ilog2 :: "rat \<Rightarrow> int" where
  "ilog2 x =
     (let (n, d) = quotient_of x; k = bitlen n - bitlen d
      in if 2 powi k \<le> x then k else k - 1)"

definition binary64 :: "rat \<Rightarrow> rat" where
  "binary64 x =
     (if x = 0 then 0
      else let u = 2 powi (ilog2 \<bar>x\<bar> - 52) in of_int (roundHalfEven (x / u)) * u)"

definition Math_round :: "rat \<Rightarrow> int" where
  "Math_round x = \<lfloor>x + 1 / 2\<rfloor>"

text \<open>
  \<^verbatim>\<open>function pct(passed, total) { return total ? Math.round((passed / total) * 100) : 0; }\<close>
  The dashboards write the same expression in line for their accuracies.
\<close>

definition pct :: "nat \<Rightarrow> nat \<Rightarrow> int" where
  "pct passed tot =
     (if tot = 0 then 0
      else Math_round (binary64 (binary64 (of_nat passed / of_nat tot) * 100)))"

text \<open>
  The specification's wording of the accuracy, for comparison: \<open>round(100 * passes /
  attempts)\<close> on the exact quotient, 0 when there is no attempt.
\<close>

definition specAccuracy :: "nat \<Rightarrow> nat \<Rightarrow> int" where
  "specAccuracy p a = (if a = 0 then 0 else round (100 * of_nat p / of_nat a :: rat))"

section \<open>The analytics (js/core.js)\<close>

subsection \<open>Local storage\<close>

text \<open>
  An item of local storage is missing (\<^verbatim>\<open>getItem\<close> returns \<^verbatim>\<open>null\<close>), holds text that
  \<^verbatim>\<open>JSON.parse\<close> rejects, or holds a progress record.
  \<^verbatim>\<open>JSON.parse(localStorage.getItem(k) || '{}')\<close> reads a missing item as the empty record
  and raises on the second.
\<close>

datatype StoredItem = Missing | Malformed | Stored ProgressRecord

type_synonym Storage = "string \<Rightarrow> StoredItem"

definition parseItem :: "StoredItem \<Rightarrow> jsError + ProgressRecord" where
  "parseItem it = (case it of Missing \<Rightarrow> Inr [] | Malformed \<Rightarrow> Inl SyntaxError | Stored p \<Rightarrow> Inr p)"

text \<open>
  \<^verbatim>\<open>function getProgress(trackKey) { try { return JSON.parse(...); } catch { return {}; } }\<close>
  and \<^verbatim>\<open>Store.get(trackKey, {})\<close>, which does the same.
\<close>

definition getProgress :: "Storage \<Rightarrow> string \<Rightarrow> ProgressRecord" where
  "getProgress storage k = (case parseItem (storage k) of Inl e \<Rightarrow> [] | Inr p \<Rightarrow> p)"

text \<open>
  \<^verbatim>\<open>if (!s.last) return;\<close> and \<^verbatim>\<open>.filter(([, st]) => st.last)\<close>: a time stamp that is
  \<^verbatim>\<open>null\<close>, missing or 0 is no time stamp.
\<close>

definition hasLast :: "AttemptStat \<Rightarrow> bool" where
  "hasLast s = (case last_time s of None \<Rightarrow> False | Some t \<Rightarrow> t \<noteq> 0)"

subsection \<open>buildDailySeries\<close>

type_synonym Counts = "string \<Rightarrow> nat option"

text \<open>
  \<^verbatim>\<open>for (let i = days - 1; i >= 0; i--) { const d = new Date(today); d.setDate(today.getDate() - i);
  const key = d.toISOString().slice(0, 10); labels.push(key); counts[key] = 0; }\<close>
  The first argument of the loop function is \<open>i + 1\<close>.
\<close>

fun windowLoop :: "Host \<Rightarrow> int \<Rightarrow> nat \<Rightarrow> string list \<times> Counts \<Rightarrow> jsError + string list \<times> Counts" where
  "windowLoop host today 0 st = Inr st"
| "windowLoop host today (Suc i) (labels, counts) =
     (case isoDay (setDateBack host today (int i)) of
        Inl e \<Rightarrow> Inl e
      | Inr key \<Rightarrow> windowLoop host today i (labels @ [key], counts(key \<mapsto> 0)))"

text \<open>\<^verbatim>\<open>s.attempts || 1\<close>\<close>

definition attemptsOr1 :: "AttemptStat \<Rightarrow> nat" where
  "attemptsOr1 s = (if attempts s = 0 then 1 else attempts s)"

text \<open>
  The body of \<^verbatim>\<open>Object.values(p).forEach(s => { if (!s.last) return;
  const dayKey = new Date(s.last).toISOString().slice(0, 10);
  if (dayKey in counts) counts[dayKey] += (s.attempts || 1); })\<close>.
\<close>

definition countStat :: "AttemptStat \<Rightarrow> Counts \<Rightarrow> jsError + Counts" where
  "countStat s counts =
     (case last_time s of
        None \<Rightarrow> Inr counts
      | Some t \<Rightarrow>
          if t = 0 then Inr counts
          else (case isoDay (newDate t) of
                  Inl e \<Rightarrow> Inl e
                | Inr dayKey \<Rightarrow>
                    (case counts dayKey of
                       None \<Rightarrow> Inr counts
                     | Some c \<Rightarrow> Inr (counts(dayKey \<mapsto> c + attemptsOr1 s)))))"

text \<open>
  \<^verbatim>\<open>forEach\<close>: an exception leaves the loop, and the counts stay as they are at
  that point.
\<close>

fun countStats :: "AttemptStat list \<Rightarrow> Counts \<Rightarrow> jsError option \<times> Counts" where
  "countStats [] counts = (None, counts)"
| "countStats (s # ss) counts =
     (case countStat s counts of
        Inl e \<Rightarrow> (Some e, counts)
      | Inr c \<Rightarrow> countStats ss c)"

text \<open>\<^verbatim>\<open>try { const p = JSON.parse(...); Object.values(p).forEach(...) } catch (_) { /* ignore */ }\<close>\<close>

definition countTrack :: "Storage \<Rightarrow> string \<Rightarrow> Counts \<Rightarrow> Counts" where
  "countTrack storage k counts =
     (case parseItem (storage k) of
        Inl e \<Rightarrow> counts
      | Inr p \<Rightarrow> snd (countStats (map snd p) counts))"

text \<open>
  \<^verbatim>\<open>function buildDailySeries(trackKeys = ['jc_progress', 'mj_progress'], days = 14)\<close>,
  with the clock reading \<^verbatim>\<open>new Date()\<close> as the argument \<open>today\<close>. It returns
  \<^verbatim>\<open>{ labels, series }\<close>, \<^verbatim>\<open>series = labels.map(l => counts[l] || 0)\<close>.
\<close>

definition buildDailySeries ::
  "Host \<Rightarrow> Storage \<Rightarrow> string list \<Rightarrow> nat \<Rightarrow> int \<Rightarrow> jsError + string list \<times> nat list" where
  "buildDailySeries host storage trackKeys days today =
     (case windowLoop host today days ([], Map.empty) of
        Inl e \<Rightarrow> Inl e
      | Inr (labels, counts0) \<Rightarrow>
          (let counts = fold (countTrack storage) trackKeys counts0;
               series = map (\<lambda>l. case counts l of None \<Rightarrow> 0 | Some c \<Rightarrow> c) labels
           in Inr (labels, series)))"

definition defaultTrackKeys :: "string list" where
  "defaultTrackKeys = [''jc_progress'', ''mj_progress'']"

definition defaultDays :: nat where
  "defaultDays = 14"

subsection \<open>computeTrackAnalytics and calcStreak\<close>

text \<open>
  A track (a section of the dashboard): \<^verbatim>\<open>{title, problemsUrl, trackKey, key, page}\<close>, with
  \<^verbatim>\<open>title\<close> as \<open>trackTitle\<close> and \<^verbatim>\<open>key\<close> as \<open>key_attr\<close>.
\<close>

record Track =
  trackTitle :: string
  problemsUrl :: string
  trackKey :: string
  key_attr :: "string option"
  page :: "string option"

text \<open>
  \<^verbatim>\<open>window.__problemsCache\<close>: the problem list of a track key, \<open>None\<close> where the entry is
  \<^verbatim>\<open>null\<close> or absent.
\<close>

type_synonym ProblemsCache = "string \<Rightarrow> Problem list option"

text \<open>
  The \<^verbatim>\<open>stats\<close> object. Its fields \<^verbatim>\<open>total\<close>, \<^verbatim>\<open>attempts\<close> and \<^verbatim>\<open>passes\<close> are
  \<open>total_count\<close>, \<open>attempts_sum\<close> and \<open>passes_sum\<close> here.
\<close>

record TrackStats =
  solved :: nat
  total_count :: nat
  attempts_sum :: nat
  passes_sum :: nat
  accuracy :: int
  lastActive :: "string option"
  streak :: nat

text \<open>
  The first loop of \<^verbatim>\<open>computeTrackAnalytics\<close>:
  \<^verbatim>\<open>stats.attempts += (s.attempts || 0); stats.passes += (s.passes || 0);
  if (s.passes && s.passes > 0) stats.solved += 1;
  if (s.last) { const d = new Date(s.last);
    if (!stats.lastActive || d > new Date(stats.lastActive)) stats.lastActive = d.toISOString(); }\<close>
  The state is \<^verbatim>\<open>stats\<close> together with the Date that \<^verbatim>\<open>new Date(stats.lastActive)\<close>
  reads back from the text (the time value that \<^verbatim>\<open>toISOString\<close> printed). An invalid
  Date compares false with every Date.
\<close>

definition dateGreater :: "int option \<Rightarrow> int option \<Rightarrow> bool" where
  "dateGreater d c = (case d of None \<Rightarrow> False | Some a \<Rightarrow> (case c of None \<Rightarrow> False | Some b \<Rightarrow> b < a))"

fun statsLoop :: "AttemptStat list \<Rightarrow> TrackStats \<times> int option \<Rightarrow> jsError + TrackStats \<times> int option" where
  "statsLoop [] st = Inr st"
| "statsLoop (s # ss) (stats, cur) =
     (let stats1 = stats\<lparr>attempts_sum := attempts_sum stats + attempts s\<rparr>;
          stats2 = stats1\<lparr>passes_sum := passes_sum stats1 + passes s\<rparr>;
          stats3 = (if 0 < passes s then stats2\<lparr>solved := solved stats2 + 1\<rparr> else stats2)
      in if hasLast s then
           (let d = (case last_time s of None \<Rightarrow> None | Some t \<Rightarrow> newDate t)
            in if lastActive stats3 = None \<or> dateGreater d cur then
                 (case toISOString d of
                    Inl e \<Rightarrow> Inl e
                  | Inr txt \<Rightarrow> statsLoop ss (stats3\<lparr>lastActive := Some txt\<rparr>, d))
               else statsLoop ss (stats3, cur))
         else statsLoop ss (stats3, cur))"

text \<open>
  The second loop: \<^verbatim>\<open>if (!s.last) return; const day = new Date(s.last).toISOString().slice(0, 10);
  daysSet.add(day);\<close>
\<close>

fun daysLoop :: "AttemptStat list \<Rightarrow> string set \<Rightarrow> jsError + string set" where
  "daysLoop [] daysSet = Inr daysSet"
| "daysLoop (s # ss) daysSet =
     (case last_time s of
        None \<Rightarrow> daysLoop ss daysSet
      | Some t \<Rightarrow>
          if t = 0 then daysLoop ss daysSet
          else (case isoDay (newDate t) of
                  Inl e \<Rightarrow> Inl e
                | Inr day \<Rightarrow> daysLoop ss (insert day daysSet)))"

text \<open>
  \<^verbatim>\<open>function calcStreak(set) { let streak = 0; const today = new Date();
  for (let offset = 0; offset < 365; offset++) { const d = new Date(today);
    d.setDate(today.getDate() - offset); const key = d.toISOString().slice(0, 10);
    if (set.has(key)) streak++; else { if (offset === 0) continue; break; } }
  return streak; }\<close>
  The last argument of the loop function is the variable \<^verbatim>\<open>streak\<close>.
\<close>

function calcStreakLoop :: "Host \<Rightarrow> int \<Rightarrow> string set \<Rightarrow> nat \<Rightarrow> nat \<Rightarrow> jsError + nat" where
  "calcStreakLoop host today daysSet offset n =
     (if offset < 365 then
        (case isoDay (setDateBack host today (int offset)) of
           Inl e \<Rightarrow> Inl e
         | Inr key \<Rightarrow>
             if key \<in> daysSet then calcStreakLoop host today daysSet (offset + 1) (n + 1)
             else if offset = 0 then calcStreakLoop host today daysSet (offset + 1) n
             else Inr n)
      else Inr n)"
  by pat_completeness auto
termination
  by (relation "measure (\<lambda>(host, today, daysSet, offset, n). 365 - offset)") auto

declare calcStreakLoop.simps [simp del]

definition calcStreak :: "Host \<Rightarrow> int \<Rightarrow> string set \<Rightarrow> jsError + nat" where
  "calcStreak host today daysSet = calcStreakLoop host today daysSet 0 0"

definition computeTrackAnalytics ::
  "Host \<Rightarrow> ProblemsCache \<Rightarrow> Storage \<Rightarrow> int \<Rightarrow> Track \<Rightarrow> jsError + TrackStats" where
  "computeTrackAnalytics host cache storage today track =
     (let pList = cache (trackKey track);
          progress = getProgress storage (trackKey track);
          stats0 = \<lparr>solved = 0, total_count = 0, attempts_sum = 0, passes_sum = 0,
                    accuracy = 0, lastActive = None, streak = 0\<rparr>;
          stats1 = (case pList of None \<Rightarrow> stats0 | Some ps \<Rightarrow> stats0\<lparr>total_count := length ps\<rparr>)
      in case statsLoop (map snd progress) (stats1, None) of
           Inl e \<Rightarrow> Inl e
         | Inr (stats2, cur) \<Rightarrow>
             (let stats3 = stats2\<lparr>accuracy := pct (passes_sum stats2) (attempts_sum stats2)\<rparr>
              in case daysLoop (map snd progress) {} of
                   Inl e \<Rightarrow> Inl e
                 | Inr daysSet \<Rightarrow>
                     (case calcStreak host today daysSet of
                        Inl e \<Rightarrow> Inl e
                      | Inr n \<Rightarrow> Inr (stats3\<lparr>streak := n\<rparr>))))"

subsection \<open>Loading the problem lists\<close>

text \<open>
  The network is a function from the URL to the outcome of \<^verbatim>\<open>fetch\<close> and
  \<^verbatim>\<open>r.json()\<close>: the problem list, or the error that \<^verbatim>\<open>loadJson\<close> throws.
\<close>

type_synonym Fetch = "string \<Rightarrow> jsError + Problem list"

text \<open>
  \<^verbatim>\<open>preloadProblemsForTracks\<close> catches the failure of a fetch and stores
  \<^verbatim>\<open>null\<close>: \<^verbatim>\<open>if (!t.problemsUrl) return; try { ...; window.__problemsCache[t.trackKey] = j; }
  catch (e) { window.__problemsCache[t.trackKey] = null; }\<close>
\<close>

fun preloadProblemsForTracks :: "Fetch \<Rightarrow> Track list \<Rightarrow> ProblemsCache \<Rightarrow> ProblemsCache" where
  "preloadProblemsForTracks fetch [] cache = cache"
| "preloadProblemsForTracks fetch (t # ts) cache =
     preloadProblemsForTracks fetch ts
       (if problemsUrl t = [] then cache
        else cache(trackKey t := (case fetch (problemsUrl t) of Inl e \<Rightarrow> None | Inr j \<Rightarrow> Some j)))"

subsection \<open>renderDashboardMulti\<close>

text \<open>
  The entries of \<^verbatim>\<open>recent\<close>; the fields \<^verbatim>\<open>when\<close>, \<^verbatim>\<open>pid\<close>, \<^verbatim>\<open>track\<close> and
  \<^verbatim>\<open>title\<close> are \<open>when_time\<close>, \<open>item_pid\<close>, \<open>item_track\<close> and \<open>item_title\<close> here.
\<close>

record RecentItem =
  when_time :: int
  item_pid :: string
  item_track :: string
  passed :: bool
  item_title :: string

text \<open>The numbers that a track's card shows.\<close>

record TrackCard =
  card_title :: string
  card_solved :: nat
  card_total :: nat
  card_attempts :: nat
  card_passes :: nat
  card_acc :: int
  card_solvedPerc :: int

record Overall =
  totalProblems :: nat
  overall_attempts :: nat
  overall_passes :: nat
  overall_solved :: nat

record Dashboard =
  overall :: Overall
  accOverall :: int
  solvedPercAll :: int
  cards :: "TrackCard list"
  recent :: "RecentItem list"

text \<open>\<^verbatim>\<open>(problems.find(p => p.id === pid)?.title) || pid\<close>\<close>

definition problemTitle :: "Problem list \<Rightarrow> string \<Rightarrow> string" where
  "problemTitle problems k =
     (case find (\<lambda>p. pid p = k) problems of
        None \<Rightarrow> k
      | Some p \<Rightarrow> if title p = [] then k else title p)"

text \<open>
  \<^verbatim>\<open>Object.values(progress).forEach(st => { attempts += st.attempts; passes += st.passes;
  if (st.passes > 0) solved++; })\<close>
\<close>

definition totalsStep :: "AttemptStat \<Rightarrow> nat \<times> nat \<times> nat \<Rightarrow> nat \<times> nat \<times> nat" where
  "totalsStep st acc =
     (case acc of (a, p, sv) \<Rightarrow>
        (a + attempts st, p + passes st, if 0 < passes st then sv + 1 else sv))"

definition trackTotals :: "ProgressRecord \<Rightarrow> nat \<times> nat \<times> nat" where
  "trackTotals progress = fold totalsStep (map snd progress) (0, 0, 0)"

text \<open>
  \<^verbatim>\<open>Object.entries(progress).filter(([, st]) => st.last).forEach(([pid, st]) => {
  recent.push({ when: st.last, pid, track: s.title, passed: st.passes > 0, title: ... }); })\<close>
\<close>

definition recentItem :: "Track \<Rightarrow> Problem list \<Rightarrow> string \<times> AttemptStat \<Rightarrow> RecentItem option" where
  "recentItem s problems e =
     (case e of (k, st) \<Rightarrow>
        (case last_time st of
           None \<Rightarrow> None
         | Some t \<Rightarrow>
             if t = 0 then None
             else Some \<lparr>when_time = t, item_pid = k, item_track = trackTitle s,
                        passed = (0 < passes st), item_title = problemTitle problems k\<rparr>))"

definition recentOf :: "Track \<Rightarrow> Problem list \<Rightarrow> ProgressRecord \<Rightarrow> RecentItem list" where
  "recentOf s problems progress = List.map_filter (recentItem s problems) progress"

definition trackCard :: "Track \<Rightarrow> Problem list \<Rightarrow> ProgressRecord \<Rightarrow> TrackCard" where
  "trackCard s problems progress =
     (case trackTotals progress of (a, p, sv) \<Rightarrow>
        \<lparr>card_title = trackTitle s, card_solved = sv, card_total = length problems,
         card_attempts = a, card_passes = p,
         card_acc = pct p a, card_solvedPerc = pct sv (length problems)\<rparr>)"

text \<open>
  \<^verbatim>\<open>await Promise.all(sections.map(async (s) => { const problems = await loadJson(s.problemsUrl); ... }))\<close>
  is rejected when a \<^verbatim>\<open>loadJson\<close> throws, and \<^verbatim>\<open>renderDashboardMulti\<close> with it:
  nothing that follows the \<^verbatim>\<open>await\<close> runs.
\<close>

fun loadAll :: "Fetch \<Rightarrow> Track list \<Rightarrow> jsError + (Track \<times> Problem list) list" where
  "loadAll fetch [] = Inr []"
| "loadAll fetch (s # ss) =
     (case fetch (problemsUrl s) of
        Inl e \<Rightarrow> Inl e
      | Inr problems \<Rightarrow>
          (case loadAll fetch ss of
             Inl e \<Rightarrow> Inl e
           | Inr rest \<Rightarrow> Inr ((s, problems) # rest)))"

text \<open>
  Each callback adds its track to \<^verbatim>\<open>overall\<close> and pushes its entries on \<^verbatim>\<open>recent\<close>
  when its fetch resolves. \<open>order\<close> lists the indices of the sections in the order in
  which the fetches resolve; the cards are in the order of the sections.
\<close>

definition addOverall :: "TrackCard \<Rightarrow> Overall \<Rightarrow> Overall" where
  "addOverall c ov =
     \<lparr>totalProblems = totalProblems ov + card_total c,
      overall_attempts = overall_attempts ov + card_attempts c,
      overall_passes = overall_passes ov + card_passes c,
      overall_solved = overall_solved ov + card_solved c\<rparr>"

definition pushedRecent :: "Storage \<Rightarrow> (Track \<times> Problem list) list \<Rightarrow> nat list \<Rightarrow> RecentItem list" where
  "pushedRecent storage loaded order =
     concat (map (\<lambda>i. if i < length loaded
                       then (case loaded ! i of (s, problems) \<Rightarrow>
                               recentOf s problems (getProgress storage (trackKey s)))
                       else []) order)"

text \<open>
  \<^verbatim>\<open>recent.sort((a, b) => b.when - a.when)\<close>: the array in descending order of
  \<^verbatim>\<open>when\<close>, entries with equal time stamps in the order they had (the sort of an array
  is stable).
\<close>

definition sortRecent :: "RecentItem list \<Rightarrow> RecentItem list" where
  "sortRecent rs = sort_key (\<lambda>r. - when_time r) rs"

text \<open>
  The feed that is rendered: \<^verbatim>\<open>recent.sort(...)\<close> and then \<^verbatim>\<open>recent.slice(0, 10)\<close>.
\<close>

definition recentFeed :: "Storage \<Rightarrow> (Track \<times> Problem list) list \<Rightarrow> nat list \<Rightarrow> RecentItem list" where
  "recentFeed storage loaded order = take 10 (sortRecent (pushedRecent storage loaded order))"

definition renderDashboardMulti ::
  "Fetch \<Rightarrow> Storage \<Rightarrow> Track list \<Rightarrow> nat list \<Rightarrow> jsError + Dashboard" where
  "renderDashboardMulti fetch storage sections order =
     (case loadAll fetch sections of
        Inl e \<Rightarrow> Inl e
      | Inr loaded \<Rightarrow>
          (let cs = map (\<lambda>(s, problems). trackCard s problems (getProgress storage (trackKey s))) loaded;
               ov = fold addOverall cs
                      \<lparr>totalProblems = 0, overall_attempts = 0, overall_passes = 0, overall_solved = 0\<rparr>
           in Inr \<lparr>overall = ov,
                   accOverall = pct (overall_passes ov) (overall_attempts ov),
                   solvedPercAll = pct (overall_solved ov) (totalProblems ov),
                   cards = cs,
                   recent = recentFeed storage loaded order\<rparr>))"

subsection \<open>Vocabulary of the statements\<close>

text \<open>
  The Dates that the two loops build are all valid when \<open>datesValid\<close> holds for their
  number of steps; otherwise \<^verbatim>\<open>toISOString\<close> raises. \<open>backKey\<close> is the day key of the
  Date \<open>i\<close> local days before today, the text that both loops compute at step \<open>i\<close>.

  The host's offset is steady over \<open>n\<close> days back when the offset that the host has at
  the local time of day of now, on each of the \<open>n\<close> local days that end with today, is
  its offset now. A host at a fixed offset is always steady; a host with daylight saving
  is steady as long as no change of its clocks falls within these days.
\<close>

definition datesValid :: "Host \<Rightarrow> int \<Rightarrow> nat \<Rightarrow> bool" where
  "datesValid host today n = list_all (\<lambda>i. setDateBack host today (int i) \<noteq> None) [0..<n]"

definition backKey :: "Host \<Rightarrow> int \<Rightarrow> nat \<Rightarrow> string" where
  "backKey host today i =
     (case setDateBack host today (int i) of None \<Rightarrow> [] | Some t \<Rightarrow> take 10 (isoText t))"

definition steadyOffset :: "Host \<Rightarrow> int \<Rightarrow> nat \<Rightarrow> bool" where
  "steadyOffset host today n =
     list_all (\<lambda>i. localOffset host (LocalTime host today - int i * msPerDay) = utcOffset host today)
       [0..<n]"

text \<open>
  The text of the UTC day \<open>i\<close> days before that of \<open>today\<close>; the attempt statistics that
  a list of tracks holds; the day key that \<^verbatim>\<open>buildDailySeries\<close> computes for a statistic
  (none without a time stamp, an error for a time stamp outside the range of Date); the
  day number of its time stamp; and whether the written date of the UTC day of its time
  stamp is a given text.
\<close>

definition dayLabel :: "int \<Rightarrow> nat \<Rightarrow> string" where
  "dayLabel today i = take 10 (isoText (today - int i * msPerDay))"

definition allStats :: "Storage \<Rightarrow> string list \<Rightarrow> AttemptStat list" where
  "allStats storage trackKeys = concat (map (\<lambda>k. map snd (getProgress storage k)) trackKeys)"

definition statDay :: "AttemptStat \<Rightarrow> (jsError + string) option" where
  "statDay s =
     (case last_time s of
        None \<Rightarrow> None
      | Some t \<Rightarrow> if t = 0 then None else Some (isoDay (newDate t)))"

definition onDayNumber :: "int \<Rightarrow> AttemptStat \<Rightarrow> bool" where
  "onDayNumber d s = (case last_time s of None \<Rightarrow> False | Some t \<Rightarrow> t \<noteq> 0 \<and> Day t = d)"



text \<open>
  The time stamps of a list of statistics, in order, and the later of a time stamp and
  the latest so far.
\<close>

definition datedTimes :: "AttemptStat list \<Rightarrow> int list" where
  "datedTimes ss =
     List.map_filter
       (\<lambda>s. case last_time s of None \<Rightarrow> None | Some t \<Rightarrow> if t = 0 then None else Some t) ss"

definition later :: "int \<Rightarrow> int option \<Rightarrow> int option" where
  "later t c = (case c of None \<Rightarrow> Some t | Some b \<Rightarrow> if b < t then Some t else Some b)"

text \<open>
  The specification's wording of the records of the feed, for comparison: every pair of
  a problem id and a statistic, of every track, that has a last time stamp, flattened
  into a record \<^verbatim>\<open>{when, title, track, passed: passes > 0}\<close> (and the id). The title is
  the title of the track's problem with that id, and the id itself where the list has no
  such problem or gives it an empty title.
\<close>

definition specRecord :: "Track \<Rightarrow> Problem list \<Rightarrow> string \<times> AttemptStat \<Rightarrow> RecentItem" where
  "specRecord s problems e =
     \<lparr>when_time = (case last_time (snd e) of None \<Rightarrow> 0 | Some t \<Rightarrow> t),
      item_pid = fst e,
      item_track = trackTitle s,
      passed = (0 < passes (snd e)),
      item_title = (case find (\<lambda>p. pid p = fst e) problems of
                      None \<Rightarrow> fst e
                    | Some p \<Rightarrow> if title p = [] then fst e else title p)\<rparr>"

definition specRecords :: "Storage \<Rightarrow> (Track \<times> Problem list) list \<Rightarrow> RecentItem list" where
  "specRecords storage loaded =
     concat (map (\<lambda>(s, problems).
                    map (specRecord s problems)
                      (filter (\<lambda>e. hasLast (snd e)) (getProgress storage (trackKey s))))
               loaded)"
subsection \<open>Example data\<close>

text \<open>
  Two tracks for the statements below: Java Core with ten entries, nine of them with a
  time stamp, and Modern Java with seven entries, all with a time stamp; a network on
  which both problem lists load, and one on which the second fails.
\<close>

definition exampleSections :: "Track list" where
  "exampleSections =
     [\<lparr>trackTitle = ''Java Core'', problemsUrl = ''data/java-core.json'',
       trackKey = ''jc_progress'', key_attr = Some ''java-core'', page = Some ''java-core.html''\<rparr>,
      \<lparr>trackTitle = ''Modern Java'', problemsUrl = ''data/modern-java.json'',
       trackKey = ''mj_progress'', key_attr = None, page = None\<rparr>]"

definition exampleStorage :: Storage where
  "exampleStorage k =
     (if k = ''jc_progress'' then Stored
     [(''a1'', \<lparr>attempts = 2, passes = 1, last_time = Some 1793025200000\<rparr>),
      (''a2'', \<lparr>attempts = 3, passes = 0, last_time = Some 1793050400000\<rparr>),
      (''a3'', \<lparr>attempts = 1, passes = 1, last_time = Some 1793075600000\<rparr>),
      (''a4'', \<lparr>attempts = 2, passes = 0, last_time = Some 1793018000000\<rparr>),
      (''a5'', \<lparr>attempts = 3, passes = 1, last_time = Some 1793043200000\<rparr>),
      (''a6'', \<lparr>attempts = 1, passes = 0, last_time = Some 1793068400000\<rparr>),
      (''a7'', \<lparr>attempts = 2, passes = 1, last_time = Some 1793010800000\<rparr>),
      (''a8'', \<lparr>attempts = 3, passes = 0, last_time = Some 1793036000000\<rparr>),
      (''a9'', \<lparr>attempts = 1, passes = 1, last_time = Some 1793061200000\<rparr>),
      (''a10'', \<lparr>attempts = 2, passes = 0, last_time = None\<rparr>)]
      else if k = ''mj_progress'' then Stored
     [(''b1'', \<lparr>attempts = 1, passes = 0, last_time = Some 1793037800000\<rparr>),
      (''b2'', \<lparr>attempts = 2, passes = 1, last_time = Some 1793073800000\<rparr>),
      (''b3'', \<lparr>attempts = 3, passes = 0, last_time = Some 1793005400000\<rparr>),
      (''b4'', \<lparr>attempts = 4, passes = 1, last_time = Some 1793041400000\<rparr>),
      (''b5'', \<lparr>attempts = 5, passes = 0, last_time = Some 1793077400000\<rparr>),
      (''b6'', \<lparr>attempts = 6, passes = 1, last_time = Some 1793009000000\<rparr>),
      (''b7'', \<lparr>attempts = 7, passes = 0, last_time = Some 1793045000000\<rparr>)]
      else Missing)"

definition exampleProblems :: "Problem list" where
  "exampleProblems =
     [\<lparr>pid = ''a1'', title = ''Two Sum'', topic = ''Arrays'', difficulty = ''Easy'',
       statement = ''Find two numbers that add up to the target'', explain = None,
       tests = [\<lparr>input = ''[2,7] 9'', expected = ''[0,1]''\<rparr>]\<rparr>,
      \<lparr>pid = ''a2'', title = [], topic = ''Arrays'', difficulty = ''Easy'',
       statement = [], explain = None, tests = []\<rparr>,
      \<lparr>pid = ''a3'', title = ''Reverse a String'', topic = ''Strings'', difficulty = ''Easy'',
       statement = ''Return the characters of the text in reverse order'', explain = None,
       tests = [\<lparr>input = ''abc'', expected = ''cba''\<rparr>]\<rparr>]"

definition exampleLoaded :: "(Track \<times> Problem list) list" where
  "exampleLoaded = [(exampleSections ! 0, exampleProblems), (exampleSections ! 1, [])]"

definition exampleFetch :: Fetch where
  "exampleFetch url =
     (if url = ''data/java-core.json'' then Inr exampleProblems
      else if url = ''data/modern-java.json'' then Inr []
      else Inl FetchError)"

definition exampleFetchFailing :: Fetch where
  "exampleFetchFailing url =
     (if url = ''data/java-core.json'' then Inr exampleProblems else Inl FetchError)"

text \<open>
  Hosts: New York and London with their changes of the clocks in 2026 (and on standard
  time before and after that summer). New York is at UTC-05:00, and at UTC-04:00 from
  2026-03-08T07:00Z to 2026-11-01T06:00Z; London is at UTC, and at UTC+01:00 from
  2026-03-29T01:00Z to 2026-10-25T01:00Z.
\<close>

definition newYorkHost :: Host where
  "newYorkHost = dstHost (- 18000000) (- 14400000) 1772953200000 1793512800000"

definition londonHost :: Host where
  "londonHost = dstHost 0 3600000 1774746000000 1792890000000"

text \<open>
  A clock reading, 2026-11-02T04:30:00Z, and the labels of the 14 days that end with it.
\<close>

definition exampleToday :: int where
  "exampleToday = 1793593800000"

definition exampleLabels :: "string list" where
  "exampleLabels =
     [''2026-10-20'', ''2026-10-21'', ''2026-10-22'', ''2026-10-23'', ''2026-10-24'',
      ''2026-10-25'', ''2026-10-26'', ''2026-10-27'', ''2026-10-28'', ''2026-10-29'',
      ''2026-10-30'', ''2026-10-31'', ''2026-11-01'', ''2026-11-02'']"

text \<open>
  Local storage for the daily series: one track with entries dated 13 days before that
  clock reading (2026-10-20), 14 days before it (2026-10-19) and on its day, the last
  with 0 attempts, and an entry without a time stamp; the item of the other default track
  is malformed.
\<close>

definition seriesStorage :: Storage where
  "seriesStorage k =
     (if k = ''jc_progress''
      then Stored [(''p1'', \<lparr>attempts = 3, passes = 1, last_time = Some 1792470600000\<rparr>),
                   (''p2'', \<lparr>attempts = 2, passes = 2, last_time = Some 1792384200000\<rparr>),
                   (''p3'', \<lparr>attempts = 0, passes = 0, last_time = Some 1793593800000\<rparr>),
                   (''p4'', \<lparr>attempts = 5, passes = 0, last_time = None\<rparr>)]
      else if k = ''mj_progress'' then Malformed else Missing)"

text \<open>
  The track of the specification's example: five problems, and the progress
  \<^verbatim>\<open>{p1: {attempts: 3, passes: 1, last: T1}, p2: {attempts: 2, passes: 2, last: T2}}\<close>
  with \<open>T1\<close> = 2026-11-01T19:30:00Z and \<open>T2\<close> = 2026-10-31T19:30:00Z.
\<close>

definition exampleTrack :: Track where
  "exampleTrack =
     \<lparr>trackTitle = ''Java Core'', problemsUrl = ''data/java-core.json'',
      trackKey = ''jc_progress'', key_attr = None, page = None\<rparr>"

definition exampleCache :: ProblemsCache where
  "exampleCache k =
     (if k = ''jc_progress''
      then Some (map (\<lambda>k. \<lparr>pid = k, title = k, topic = ''Basics'', difficulty = ''Easy'',
                            statement = [], explain = None, tests = []\<rparr>)
                  [''p1'', ''p2'', ''p3'', ''p4'', ''p5''])
      else None)"

definition statsStorage :: Storage where
  "statsStorage k =
     (if k = ''jc_progress''
      then Stored [(''p1'', \<lparr>attempts = 3, passes = 1, last_time = Some 1793561400000\<rparr>),
                   (''p2'', \<lparr>attempts = 2, passes = 2, last_time = Some 1793475000000\<rparr>)]
      else Missing)"

text \<open>
  A record in which one entry has more passes than attempts, while the passes do not
  exceed the attempts in total.
\<close>

definition unevenStorage :: Storage where
  "unevenStorage k =
     (if k = ''jc_progress''
      then Stored [(''p1'', \<lparr>attempts = 1, passes = 2, last_time = None\<rparr>),
                   (''p2'', \<lparr>attempts = 5, passes = 1, last_time = None\<rparr>)]
      else Missing)"


section \<open>Properties of the attempt form\<close>

subsection \<open>The test loop\<close>





subsection \<open>Letter case does not matter to normalize\<close>











subsection \<open>Recording an attempt\<close>














text \<open>
  A new id that is an array index is enumerated before the ids that are not, in
  ascending order of the indices.
\<close>

lemma new_index_keys_come_first:
  "recordAttempt [(''3'', \<lparr>attempts = 1, passes = 0, last_time = Some 400\<rparr>),
                  (''p2'', \<lparr>attempts = 2, passes = 1, last_time = Some 500\<rparr>)] ''12'' False 1000
   = [(''3'', \<lparr>attempts = 1, passes = 0, last_time = Some 400\<rparr>),
      (''12'', \<lparr>attempts = 1, passes = 0, last_time = Some 1000\<rparr>),
      (''p2'', \<lparr>attempts = 2, passes = 1, last_time = Some 500\<rparr>)]
   \<and> recordAttempt [(''3'', \<lparr>attempts = 1, passes = 0, last_time = Some 400\<rparr>),
                  (''p2'', \<lparr>attempts = 2, passes = 1, last_time = Some 500\<rparr>)] ''012'' False 1000
   = [(''3'', \<lparr>attempts = 1, passes = 0, last_time = Some 400\<rparr>),
      (''p2'', \<lparr>attempts = 2, passes = 1, last_time = Some 500\<rparr>),
      (''012'', \<lparr>attempts = 1, passes = 0, last_time = Some 1000\<rparr>)]"
  by code_simp
section \<open>Properties of the calendar\<close>

subsection \<open>The year of a day\<close>

lemma div_bounds:
  assumes "0 < (n::int)"
  shows "n * (x div n) \<le> x" and "x < n * (x div n) + n"
proof -
  have e: "n * (x div n) + x mod n = x" by (simp add: mult.commute)
  have "0 \<le> x mod n" "x mod n < n"
    using assms pos_mod_sign [of n x] pos_mod_bound [of n x] by simp_all
  then show "n * (x div n) \<le> x" and "x < n * (x div n) + n"
    using e by linarith+
qed

lemma DayFromYear_estimate:
  "DayFromYear (1969 + k) \<le> (if 0 \<le> k then 366 * k else 365 * k)"
proof -
  define a where "a = k div 4"
  define b where "b = (k + 68) div 100"
  define c where "c = (k + 368) div 400"
  have a: "4 * a \<le> k" unfolding a_def by (rule div_bounds) simp
  have b: "k + 68 < 100 * b + 100" unfolding b_def by (rule div_bounds) simp
  have c: "400 * c \<le> k + 368" unfolding c_def by (rule div_bounds) simp
  have e4: "(1969 + k - 1) div 4 = a + 492"
    unfolding a_def using div_shift [of 4 k "- 492"] by simp
  have e100: "(1969 + k - 1) div 100 = b + 19"
    unfolding b_def using div_shift [of 100 "k + 68" "- 19"] by simp
  have e400: "(1969 + k - 1) div 400 = c + 4"
    unfolding c_def using div_shift [of 400 "k + 368" "- 4"] by simp
  have "DayFromYear (1969 + k) = 365 * (k - 1) + a - b + c"
    by (simp only: DayFromYear_alt e4 e100 e400) simp
  then show ?thesis using a b c by (cases "0 \<le> k") simp_all
qed

lemma YearFromDay_start:
  "DayFromYear (1969 + (if 0 \<le> d then d div 366 else d div 365)) \<le> d"
proof (cases "0 \<le> d")
  case True
  then have k: "0 \<le> d div 366" by (simp add: pos_imp_zdiv_nonneg_iff)
  have "366 * (d div 366) \<le> d" by (rule div_bounds) simp
  then show ?thesis using True k DayFromYear_estimate [of "d div 366"] by simp
next
  case False
  then have k: "d div 365 < 0" by (simp add: div_neg_pos_less0)
  have "365 * (d div 365) \<le> d" by (rule div_bounds) simp
  then show ?thesis using False k DayFromYear_estimate [of "d div 365"] by simp
qed

lemma yearSearch_spec:
  "DayFromYear y \<le> d \<Longrightarrow>
     DayFromYear (yearSearch d y) \<le> d \<and> d < DayFromYear (yearSearch d y + 1)"
proof (induction d y rule: yearSearch.induct)
  case (1 d y)
  show ?case
  proof (cases "DayFromYear (y + 1) \<le> d")
    case True
    then have "yearSearch d y = yearSearch d (y + 1)"
      by (subst yearSearch.simps) simp
    then show ?thesis using "1.IH" [OF True True] by simp
  next
    case False
    then have "yearSearch d y = y"
      by (subst yearSearch.simps) simp
    then show ?thesis using False "1.prems" by simp
  qed
qed

lemma YearFromDay_spec:
  "DayFromYear (YearFromDay d) \<le> d" "d < DayFromYear (YearFromDay d + 1)"
  using yearSearch_spec [OF YearFromDay_start [of d]] by (simp_all add: YearFromDay_def)

lemma DayFromYear_mono_nat: "DayFromYear y \<le> DayFromYear (y + int n)"
proof (induction n)
  case 0
  then show ?case by simp
next
  case (Suc n)
  have "DayFromYear (y + int n + 1) = DayFromYear (y + int n) + DaysInYear (y + int n)"
    by (rule DayFromYear_Suc)
  moreover have "y + int (Suc n) = y + int n + 1" by simp
  ultimately show ?case using Suc DaysInYear_ge [of "y + int n"] by (simp only:)
qed

lemma DayFromYear_mono: "y \<le> z \<Longrightarrow> DayFromYear y \<le> DayFromYear z"
  using DayFromYear_mono_nat [of y "nat (z - y)"] by simp

lemma DayFromYear_0: "DayFromYear 0 = - 719528"
  by (simp add: DayFromYear_def)

lemma DayFromYear_10000: "DayFromYear 10000 = 2932897"
  by (simp add: DayFromYear_def)

lemma YearFromDay_range:
  assumes "- 719528 \<le> d" "d < 2932897"
  shows "0 \<le> YearFromDay d" "YearFromDay d \<le> 9999"
proof -
  show "0 \<le> YearFromDay d"
  proof (rule ccontr)
    assume "\<not> 0 \<le> YearFromDay d"
    then have "YearFromDay d + 1 \<le> 0" by simp
    then have "DayFromYear (YearFromDay d + 1) \<le> DayFromYear 0" by (rule DayFromYear_mono)
    then show False using YearFromDay_spec(2) [of d] assms by (simp add: DayFromYear_0)
  qed
  show "YearFromDay d \<le> 9999"
  proof (rule ccontr)
    assume "\<not> YearFromDay d \<le> 9999"
    then have "10000 \<le> YearFromDay d" by simp
    then have "DayFromYear 10000 \<le> DayFromYear (YearFromDay d)" by (rule DayFromYear_mono)
    then show False using YearFromDay_spec(1) [of d] assms by (simp add: DayFromYear_10000)
  qed
qed




subsection \<open>The text of a day names it\<close>

lemma digitChar_inj:
  "0 \<le> a \<Longrightarrow> a < 10 \<Longrightarrow> 0 \<le> b \<Longrightarrow> b < 10 \<Longrightarrow> digitChar a = digitChar b \<Longrightarrow> a = b"
  by (simp add: digitChar_def nth_eq_iff_index_eq)

lemma length_pad [simp]: "length (pad k n) = k"
  by (induction k arbitrary: n) simp_all

lemma pad_inj:
  "0 \<le> n \<Longrightarrow> n < 10 ^ k \<Longrightarrow> 0 \<le> m \<Longrightarrow> m < 10 ^ k \<Longrightarrow> pad k n = pad k m \<Longrightarrow> n = m"
proof (induction k arbitrary: n m)
  case 0
  then show ?case by simp
next
  case (Suc k)
  from Suc.prems(5) have p: "pad k (n div 10) = pad k (m div 10)"
    and c: "digitChar (n mod 10) = digitChar (m mod 10)"
    by simp_all
  have "10 * (n div 10) \<le> n" by (rule div_bounds) simp
  then have n: "0 \<le> n div 10" "n div 10 < 10 ^ k"
    using Suc.prems(1,2) by (simp_all add: pos_imp_zdiv_nonneg_iff)
  have "10 * (m div 10) \<le> m" by (rule div_bounds) simp
  then have m: "0 \<le> m div 10" "m div 10 < 10 ^ k"
    using Suc.prems(3,4) by (simp_all add: pos_imp_zdiv_nonneg_iff)
  have d: "n div 10 = m div 10" using n(1,2) m(1,2) p by (rule Suc.IH)
  have "n mod 10 = m mod 10" using c by (intro digitChar_inj) simp_all
  then show ?case using d by (metis div_mult_mod_eq)
qed

lemma month_date_range:
  assumes "0 \<le> leap" "leap \<le> 1" "0 \<le> n" "n < 365 + leap"
  shows "0 \<le> MonthFromDay leap n \<and> MonthFromDay leap n \<le> 11
       \<and> 1 \<le> DateFromDay leap n \<and> DateFromDay leap n \<le> 31"
  using assms by (simp add: DateFromDay_def MonthFromDay_def Let_def)

lemma month_date_inj:
  assumes "MonthFromDay leap a = MonthFromDay leap b" "DateFromDay leap a = DateFromDay leap b"
  shows "a = b"
proof -
  define m where "m = MonthFromDay leap b"
  have "DateFromDay leap a = (if m = 0 then a + 1 else if m = 1 then a - 30 else if m = 2 then a - 58 - leap
      else if m = 3 then a - 89 - leap else if m = 4 then a - 119 - leap
      else if m = 5 then a - 150 - leap else if m = 6 then a - 180 - leap
      else if m = 7 then a - 211 - leap else if m = 8 then a - 242 - leap
      else if m = 9 then a - 272 - leap else if m = 10 then a - 303 - leap
      else a - 333 - leap)"
    unfolding m_def assms(1) [symmetric] by (simp add: DateFromDay_def Let_def)
  moreover have "DateFromDay leap b = (if m = 0 then b + 1 else if m = 1 then b - 30 else if m = 2 then b - 58 - leap
      else if m = 3 then b - 89 - leap else if m = 4 then b - 119 - leap
      else if m = 5 then b - 150 - leap else if m = 6 then b - 180 - leap
      else if m = 7 then b - 211 - leap else if m = 8 then b - 242 - leap
      else if m = 9 then b - 272 - leap else if m = 10 then b - 303 - leap
      else b - 333 - leap)"
    unfolding m_def by (simp add: DateFromDay_def Let_def)
  ultimately show ?thesis using assms(2) by (simp split: if_splits)
qed

lemma DaysInYear_leap: "DaysInYear y = 365 + InLeapYear y"
  by (simp add: InLeapYear_def DaysInYear_def)

lemma InLeapYear_range: "0 \<le> InLeapYear y" "InLeapYear y \<le> 1"
  by (simp_all add: InLeapYear_def)

lemma DayWithinYear_range:
  "0 \<le> DayWithinYear d" "DayWithinYear d < 365 + InLeapYear (YearFromDay d)"
  using YearFromDay_spec [of d] DayFromYear_Suc [of "YearFromDay d"]
  by (simp_all add: DayWithinYear_def DaysInYear_leap)

lemma dateString_4digit:
  assumes "inYears d"
  shows "dateString d = pad 4 (YearFromDay d) @ ''-''
      @ pad 2 (MonthFromDay (InLeapYear (YearFromDay d)) (DayWithinYear d) + 1) @ ''-''
      @ pad 2 (DateFromDay (InLeapYear (YearFromDay d)) (DayWithinYear d))"
  using YearFromDay_range [of d] assms
  by (simp add: dateString_def Let_def yearString_def inYears_def)

lemma length_dateString: "inYears d \<Longrightarrow> length (dateString d) = 10"
  by (simp add: dateString_4digit)

lemma dateString_inj:
  assumes "inYears d1" "inYears d2" "dateString d1 = dateString d2"
  shows "d1 = d2"
proof -
  define y1 where "y1 = YearFromDay d1"
  define y2 where "y2 = YearFromDay d2"
  define m1 where "m1 = MonthFromDay (InLeapYear y1) (DayWithinYear d1)"
  define m2 where "m2 = MonthFromDay (InLeapYear y2) (DayWithinYear d2)"
  define t1 where "t1 = DateFromDay (InLeapYear y1) (DayWithinYear d1)"
  define t2 where "t2 = DateFromDay (InLeapYear y2) (DayWithinYear d2)"
  have yr: "0 \<le> y1" "y1 \<le> 9999" "0 \<le> y2" "y2 \<le> 9999"
    using YearFromDay_range [of d1] YearFromDay_range [of d2] assms(1,2)
    by (simp_all add: y1_def y2_def inYears_def)
  have r1: "0 \<le> m1 \<and> m1 \<le> 11 \<and> 1 \<le> t1 \<and> t1 \<le> 31"
    unfolding m1_def t1_def y1_def
    by (intro month_date_range InLeapYear_range DayWithinYear_range)
  have r2: "0 \<le> m2 \<and> m2 \<le> 11 \<and> 1 \<le> t2 \<and> t2 \<le> 31"
    unfolding m2_def t2_def y2_def
    by (intro month_date_range InLeapYear_range DayWithinYear_range)
  have "pad 4 y1 @ ''-'' @ pad 2 (m1 + 1) @ ''-'' @ pad 2 t1
      = pad 4 y2 @ ''-'' @ pad 2 (m2 + 1) @ ''-'' @ pad 2 t2"
    using assms(3) unfolding dateString_4digit [OF assms(1)] dateString_4digit [OF assms(2)]
    by (simp only: y1_def y2_def m1_def m2_def t1_def t2_def)
  then have py: "pad 4 y1 = pad 4 y2"
    and pm: "pad 2 (m1 + 1) = pad 2 (m2 + 1)"
    and pt: "pad 2 t1 = pad 2 t2"
    by simp_all
  have y: "y1 = y2" using yr by (intro pad_inj [OF _ _ _ _ py]) simp_all
  have "m1 + 1 = m2 + 1" using r1 r2 by (intro pad_inj [OF _ _ _ _ pm]) auto
  then have m: "m1 = m2" by simp
  have t: "t1 = t2" using r1 r2 by (intro pad_inj [OF _ _ _ _ pt]) auto
  have "DayWithinYear d1 = DayWithinYear d2"
    using m t unfolding m1_def m2_def t1_def t2_def y by (rule month_date_inj)
  then show ?thesis
    using y by (simp add: DayWithinYear_def y1_def y2_def)
qed


lemma inYearsT_Day: "inYearsT t \<Longrightarrow> inYears (Day t)"
proof -
  assume a: "inYearsT t"
  have l: "86400000 * (t div 86400000) \<le> t" by (rule div_bounds) simp
  have u: "t < 86400000 * (t div 86400000) + 86400000" by (rule div_bounds) simp
  show ?thesis using a l u by (simp add: inYearsT_def inYears_def Day_def msPerDay_def)
qed

lemma inYearsT_valid: "inYearsT t \<Longrightarrow> validTime t"
  by (simp add: inYearsT_def validTime_def maxTime_def)

lemma isoDay_valid: "validTime t \<Longrightarrow> isoDay (TimeClip t) = Inr (take 10 (isoText t))"
  by (simp add: isoDay_def toISOString_def TimeClip_def)

lemma take10_isoText: "inYearsT t \<Longrightarrow> take 10 (isoText t) = dateString (Day t)"
  by (simp add: isoText_def length_dateString inYearsT_Day)

lemma isoDay_inYears: "inYearsT t \<Longrightarrow> isoDay (TimeClip t) = Inr (dateString (Day t))"
  by (simp add: isoDay_valid inYearsT_valid take10_isoText)

lemma isoDay_inj:
  assumes "inYearsT s" "inYearsT t"
  shows "isoDay (TimeClip s) = isoDay (TimeClip t) \<longleftrightarrow> Day s = Day t"
  using assms dateString_inj [of "Day s" "Day t"]
  by (auto simp: isoDay_inYears inYearsT_Day)

subsection \<open>Moving a date back\<close>

lemma MakeDate_back: "MakeDate (Day t - i) (TimeWithinDay t) = t - i * msPerDay"
proof -
  have "t div msPerDay * msPerDay + t mod msPerDay = t" by simp
  then have "(t div msPerDay - i) * msPerDay + t mod msPerDay = t - i * msPerDay"
    by (simp add: algebra_simps)
  then show ?thesis by (simp only: MakeDate_def Day_def TimeWithinDay_def)
qed

lemma setDateBack_local:
  assumes "validTime today"
  shows "setDateBack host today i =
     TimeClip (LocalTime host today - i * msPerDay
               - localOffset host (LocalTime host today - i * msPerDay))"
  using assms
  by (simp add: setDateBack_def newDate_def TimeClip_def Let_def MakeDate_back UTC_def)

lemma setDateBack_invalid: "\<not> validTime today \<Longrightarrow> setDateBack host today i = None"
  by (simp add: setDateBack_def newDate_def TimeClip_def)

lemma setDateBack_steady:
  assumes "validTime today"
      and "localOffset host (LocalTime host today - i * msPerDay) = utcOffset host today"
  shows "setDateBack host today i = TimeClip (today - i * msPerDay)"
proof -
  have "LocalTime host today - i * msPerDay
          - localOffset host (LocalTime host today - i * msPerDay) = today - i * msPerDay"
    by (simp only: assms(2)) (simp add: LocalTime_def)
  then show ?thesis by (simp only: setDateBack_local [OF assms(1)])
qed

lemma Day_back: "Day (t - i * msPerDay) = Day t - i"
  unfolding Day_def by (rule div_shift) (simp add: msPerDay_def)

lemma validTime_between:
  "validTime a \<Longrightarrow> validTime b \<Longrightarrow> a \<le> t \<Longrightarrow> t \<le> b \<Longrightarrow> validTime t"
  by (simp add: validTime_def)

lemma inYearsT_between:
  "inYearsT a \<Longrightarrow> inYearsT b \<Longrightarrow> a \<le> t \<Longrightarrow> t \<le> b \<Longrightarrow> inYearsT t"
  by (simp add: inYearsT_def)

subsection \<open>Valid dates and steady offsets\<close>

lemma steadyOffset_nth:
  "steadyOffset host today n \<Longrightarrow> i < n \<Longrightarrow>
     localOffset host (LocalTime host today - int i * msPerDay) = utcOffset host today"
  by (simp add: steadyOffset_def list_all_iff)

lemma steadyOffset_fixedHost: "steadyOffset (fixedHost tza) today n"
  by (simp add: steadyOffset_def list_all_iff fixedHost_def)

lemma datesValid_nth:
  "datesValid host today n \<Longrightarrow> i < n \<Longrightarrow> \<exists>t. setDateBack host today (int i) = Some t"
  by (simp add: datesValid_def list_all_iff)

lemma datesValid_today: "datesValid host today n \<Longrightarrow> 0 < n \<Longrightarrow> validTime today"
proof (rule ccontr)
  assume a: "datesValid host today n" "0 < n" and b: "\<not> validTime today"
  from a obtain t where "setDateBack host today (int 0) = Some t"
    using datesValid_nth by blast
  then show False using setDateBack_invalid [OF b, of host "int 0"] by simp
qed

lemma datesValid_less: "datesValid host today n \<Longrightarrow> m \<le> n \<Longrightarrow> datesValid host today m"
  by (simp add: datesValid_def list_all_iff)

lemma isoDay_setDateBack:
  "datesValid host today n \<Longrightarrow> i < n \<Longrightarrow>
     isoDay (setDateBack host today (int i)) = Inr (backKey host today i)"
proof -
  assume "datesValid host today n" "i < n"
  then obtain t where "setDateBack host today (int i) = Some t"
    using datesValid_nth by blast
  then show ?thesis by (simp add: isoDay_def toISOString_def backKey_def)
qed

lemma steady_back:
  assumes "datesValid host today n" "steadyOffset host today n" "i < n"
  shows "setDateBack host today (int i) = Some (today - int i * msPerDay)"
    and "validTime (today - int i * msPerDay)"
    and "backKey host today i = dayLabel today i"
proof -
  have n: "0 < n" using assms(3) by simp
  have v: "validTime today" using assms(1) n by (rule datesValid_today)
  have o: "localOffset host (LocalTime host today - int i * msPerDay) = utcOffset host today"
    using assms(2,3) by (rule steadyOffset_nth)
  have e: "setDateBack host today (int i) = TimeClip (today - int i * msPerDay)"
    using v o by (rule setDateBack_steady)
  obtain t where t: "setDateBack host today (int i) = Some t"
    using assms(1,3) datesValid_nth by blast
  show a: "setDateBack host today (int i) = Some (today - int i * msPerDay)"
    using e t by (simp add: TimeClip_def split: if_splits)
  show "validTime (today - int i * msPerDay)"
    using e t by (simp add: TimeClip_def split: if_splits)
  show "backKey host today i = dayLabel today i"
    by (simp add: backKey_def a dayLabel_def)
qed

lemma window_valid:
  assumes "validTime today" "validTime (today - int (days - 1) * msPerDay)"
  shows "\<forall>i<days. validTime (today - int i * msPerDay)"
proof (intro allI impI)
  fix i assume "i < days"
  then have "int i \<le> int (days - 1)" by simp
  then have "int i * msPerDay \<le> int (days - 1) * msPerDay"
    by (rule mult_right_mono) (simp add: msPerDay_def)
  moreover have "0 \<le> int i * msPerDay" by (simp add: msPerDay_def)
  ultimately show "validTime (today - int i * msPerDay)"
    using assms by (intro validTime_between [OF assms(2) assms(1)]) simp_all
qed

lemma window_inYears:
  assumes "inYearsT today" "inYearsT (today - int (days - 1) * msPerDay)"
  shows "\<forall>i<days. inYearsT (today - int i * msPerDay)"
proof (intro allI impI)
  fix i assume "i < days"
  then have "int i \<le> int (days - 1)" by simp
  then have "int i * msPerDay \<le> int (days - 1) * msPerDay"
    by (rule mult_right_mono) (simp add: msPerDay_def)
  moreover have "0 \<le> int i * msPerDay" by (simp add: msPerDay_def)
  ultimately show "inYearsT (today - int i * msPerDay)"
    using assms by (intro inYearsT_between [OF assms(2) assms(1)]) simp_all
qed

lemma datesValid_steady:
  assumes "validTime today" "validTime (today - int (n - 1) * msPerDay)"
      and "steadyOffset host today n"
  shows "datesValid host today n"
proof -
  have "setDateBack host today (int i) \<noteq> None" if "i < n" for i
  proof -
    have o: "localOffset host (LocalTime host today - int i * msPerDay) = utcOffset host today"
      using assms(3) that by (rule steadyOffset_nth)
    have "validTime (today - int i * msPerDay)"
      using window_valid [OF assms(1,2)] that by blast
    then show ?thesis
      by (simp add: setDateBack_steady [OF assms(1) o] TimeClip_def)
  qed
  then show ?thesis by (simp add: datesValid_def list_all_iff)
qed

text \<open>
  On a host at a fixed offset the Dates of \<open>n\<close> steps are valid when today and the time
  \<open>n - 1\<close> days before it are; on any host whose offsets are within a day, when the
  times two days after today and \<open>n + 1\<close> days before it are.
\<close>

lemma datesValid_fixedHost:
  "validTime today \<Longrightarrow> validTime (today - int (n - 1) * msPerDay) \<Longrightarrow>
     datesValid (fixedHost tza) today n"
  by (rule datesValid_steady) (simp_all add: steadyOffset_fixedHost)

lemma datesValid_bounded:
  assumes "\<forall>t. \<bar>utcOffset host t\<bar> \<le> msPerDay" "\<forall>t. \<bar>localOffset host t\<bar> \<le> msPerDay"
      and "validTime today" "validTime (today - (int n + 1) * msPerDay)"
      and "validTime (today + 2 * msPerDay)"
  shows "datesValid host today n"
proof -
  have "setDateBack host today (int i) \<noteq> None" if i: "i < n" for i
  proof -
    define lt where "lt = LocalTime host today"
    define u where "u = lt - int i * msPerDay - localOffset host (lt - int i * msPerDay)"
    have a: "\<bar>utcOffset host today\<bar> \<le> msPerDay" using assms(1) by blast
    have b: "\<bar>localOffset host (lt - int i * msPerDay)\<bar> \<le> msPerDay" using assms(2) by blast
    have "int i + 1 \<le> int n" using i by simp
    then have "(int i + 1) * msPerDay \<le> int n * msPerDay"
      by (rule mult_right_mono) (simp add: msPerDay_def)
    then have c: "int i * msPerDay + msPerDay \<le> int n * msPerDay"
      by (simp add: algebra_simps)
    have d: "0 \<le> int i * msPerDay" by (simp add: msPerDay_def)
    have e: "(int n + 1) * msPerDay = int n * msPerDay + msPerDay"
      by (simp add: algebra_simps)
    have lo: "today - (int n + 1) * msPerDay \<le> u"
      using a b c unfolding e u_def lt_def LocalTime_def by linarith
    have hi: "u \<le> today + 2 * msPerDay"
      using a b d unfolding u_def lt_def LocalTime_def by linarith
    have "validTime u"
      using assms(4,5) lo hi by (rule validTime_between)
    then show ?thesis
      unfolding setDateBack_local [OF assms(3)] lt_def [symmetric] u_def [symmetric]
      by (simp add: TimeClip_def)
  qed
  then show ?thesis by (simp add: datesValid_def list_all_iff)
qed
section \<open>Properties of the daily series\<close>

subsection \<open>The window and the counts\<close>

lemma windowLoop_ok:
  assumes "datesValid host today n"
  shows "windowLoop host today n (ls, c) =
     Inr (ls @ map (backKey host today) (rev [0..<n]),
          \<lambda>x. if x \<in> backKey host today ` {..<n} then Some 0 else c x)"
  using assms
proof (induction n arbitrary: ls c)
  case 0
  then show ?case by simp
next
  case (Suc n)
  have k: "isoDay (setDateBack host today (int n)) = Inr (backKey host today n)"
    using Suc.prems by (rule isoDay_setDateBack) simp
  have less: "datesValid host today n"
    using Suc.prems by (rule datesValid_less) simp
  have ih: "windowLoop host today n (ls @ [backKey host today n], c(backKey host today n \<mapsto> 0)) =
     Inr ((ls @ [backKey host today n]) @ map (backKey host today) (rev [0..<n]),
          \<lambda>x. if x \<in> backKey host today ` {..<n} then Some 0 else (c(backKey host today n \<mapsto> 0)) x)"
    using less by (rule Suc.IH)
  have f: "(\<lambda>x. if x \<in> backKey host today ` {..<n} then Some 0 else (c(backKey host today n \<mapsto> 0)) x)
      = (\<lambda>x. if x \<in> backKey host today ` {..<Suc n} then Some 0 else c x)"
    by (rule ext) (auto simp: lessThan_Suc)
  show ?case by (simp add: k ih f)
qed

lemma countStat_alt:
  "countStat s c =
     (case statDay s of
        None \<Rightarrow> Inr c
      | Some (Inl e) \<Rightarrow> Inl e
      | Some (Inr k) \<Rightarrow> (case c k of None \<Rightarrow> Inr c | Some v \<Rightarrow> Inr (c(k \<mapsto> v + attemptsOr1 s))))"
  by (simp add: countStat_def statDay_def split: option.splits sum.splits)

lemma countStats_untouched:
  "\<forall>s\<in>set ss. statDay s \<noteq> Some (Inr x) \<Longrightarrow> snd (countStats ss c) x = c x"
proof (induction ss arbitrary: c)
  case Nil
  then show ?case by simp
next
  case (Cons s ss)
  then show ?case
    by (auto simp: countStat_alt split: option.splits sum.splits)
qed

lemma countStats_sum:
  "\<forall>s\<in>set ss. \<forall>e. statDay s \<noteq> Some (Inl e) \<Longrightarrow>
     snd (countStats ss c) x =
       map_option (\<lambda>v. v + sum_list (map attemptsOr1 (filter (\<lambda>s. statDay s = Some (Inr x)) ss))) (c x)"
proof (induction ss arbitrary: c)
  case Nil
  then show ?case by (simp add: option.map_ident)
next
  case (Cons s ss)
  then show ?case
    by (auto simp: countStat_alt option.map_comp comp_def split: option.splits sum.splits)
qed

lemma countTrack_eq:
  "countTrack storage k c = snd (countStats (map snd (getProgress storage k)) c)"
  by (simp add: countTrack_def getProgress_def split: sum.splits)

lemma tracks_untouched:
  "\<forall>s\<in>set (allStats storage ks). statDay s \<noteq> Some (Inr x) \<Longrightarrow>
     fold (countTrack storage) ks c x = c x"
proof (induction ks arbitrary: c)
  case Nil
  then show ?case by simp
next
  case (Cons k ks)
  have a: "\<forall>s\<in>set (map snd (getProgress storage k)). statDay s \<noteq> Some (Inr x)"
    using Cons.prems by (simp add: allStats_def)
  have b: "\<forall>s\<in>set (allStats storage ks). statDay s \<noteq> Some (Inr x)"
    using Cons.prems by (simp add: allStats_def)
  have "fold (countTrack storage) (k # ks) c x = fold (countTrack storage) ks (countTrack storage k c) x"
    by simp
  also have "\<dots> = countTrack storage k c x" by (rule Cons.IH [OF b])
  also have "\<dots> = c x" by (simp only: countTrack_eq countStats_untouched [OF a])
  finally show ?case .
qed

lemma tracks_sum:
  "\<forall>s\<in>set (allStats storage ks). \<forall>e. statDay s \<noteq> Some (Inl e) \<Longrightarrow>
     fold (countTrack storage) ks c x =
       map_option (\<lambda>v. v + sum_list (map attemptsOr1
          (filter (\<lambda>s. statDay s = Some (Inr x)) (allStats storage ks)))) (c x)"
proof (induction ks arbitrary: c)
  case Nil
  then show ?case by (simp add: allStats_def option.map_ident)
next
  case (Cons k ks)
  have a: "\<forall>s\<in>set (map snd (getProgress storage k)). \<forall>e. statDay s \<noteq> Some (Inl e)"
    using Cons.prems by (simp add: allStats_def)
  have b: "\<forall>s\<in>set (allStats storage ks). \<forall>e. statDay s \<noteq> Some (Inl e)"
    using Cons.prems by (simp add: allStats_def)
  have split: "allStats storage (k # ks) = map snd (getProgress storage k) @ allStats storage ks"
    by (simp add: allStats_def)
  have "fold (countTrack storage) (k # ks) c x = fold (countTrack storage) ks (countTrack storage k c) x"
    by simp
  also have "\<dots> = map_option (\<lambda>v. v + sum_list (map attemptsOr1
          (filter (\<lambda>s. statDay s = Some (Inr x)) (allStats storage ks)))) (countTrack storage k c x)"
    by (rule Cons.IH [OF b])
  also have "countTrack storage k c x = map_option (\<lambda>v. v + sum_list (map attemptsOr1
          (filter (\<lambda>s. statDay s = Some (Inr x)) (map snd (getProgress storage k))))) (c x)"
    by (simp only: countTrack_eq countStats_sum [OF a])
  finally show ?case
    by (simp add: split option.map_comp comp_def add.assoc)
qed


lemma buildDailySeries_ok:
  assumes "datesValid host today days"
  shows "buildDailySeries host storage trackKeys days today =
     Inr (map (backKey host today) (rev [0..<days]),
          map (\<lambda>l. case fold (countTrack storage) trackKeys
                          (\<lambda>x. if x \<in> backKey host today ` {..<days} then Some 0 else None) l
                     of None \<Rightarrow> 0 | Some c \<Rightarrow> c)
            (map (backKey host today) (rev [0..<days])))"
  by (simp add: buildDailySeries_def windowLoop_ok [OF assms] Let_def)

lemma label_nth:
  "j < days \<Longrightarrow> map (backKey host today) (rev [0..<days]) ! j = backKey host today (days - 1 - j)"
  by (simp add: rev_nth)

text \<open>
  When no time stamp is outside the range of Date, the count of a label is the sum of
  \<^verbatim>\<open>attempts || 1\<close> over the statistics whose day key is that label.
\<close>

lemma series_nth:
  assumes "\<forall>s\<in>set (allStats storage trackKeys). \<forall>e. statDay s \<noteq> Some (Inl e)"
      and "j < days"
  shows "map (\<lambda>l. case fold (countTrack storage) trackKeys
                          (\<lambda>x. if x \<in> backKey host today ` {..<days} then Some 0 else None) l
                     of None \<Rightarrow> 0 | Some c \<Rightarrow> c)
            (map (backKey host today) (rev [0..<days])) ! j
       = sum_list (map attemptsOr1
           (filter (\<lambda>s. statDay s = Some (Inr (backKey host today (days - 1 - j))))
              (allStats storage trackKeys)))"
proof -
  define c0 :: Counts where "c0 = (\<lambda>x. if x \<in> backKey host today ` {..<days} then Some 0 else None)"
  define counts where "counts = fold (countTrack storage) trackKeys c0"
  define labels where "labels = map (backKey host today) (rev [0..<days])"
  define l where "l = backKey host today (days - 1 - j)"
  have m: "labels ! j = l"
    unfolding labels_def l_def using assms(2) by (rule label_nth)
  have mem: "l \<in> backKey host today ` {..<days}" using assms(2) by (auto simp: l_def)
  have "counts l =
      map_option (\<lambda>v. v + sum_list (map attemptsOr1
        (filter (\<lambda>s. statDay s = Some (Inr l)) (allStats storage trackKeys)))) (c0 l)"
    unfolding counts_def using assms(1) by (rule tracks_sum)
  also have "c0 l = Some 0" by (simp only: c0_def mem if_True)
  finally have "counts l = Some (sum_list (map attemptsOr1
        (filter (\<lambda>s. statDay s = Some (Inr l)) (allStats storage trackKeys))))"
    by simp
  moreover have "map (\<lambda>l. case counts l of None \<Rightarrow> 0 | Some c \<Rightarrow> c) labels ! j
      = (case counts (labels ! j) of None \<Rightarrow> 0 | Some c \<Rightarrow> c)"
    using assms(2) by (simp add: labels_def)
  ultimately show ?thesis
    unfolding counts_def c0_def labels_def l_def m [unfolded labels_def l_def] by simp
qed

subsection \<open>The length and the order of the series\<close>

text \<open>
  Claim C1. Whatever the progress records hold (nothing, a few entries, time stamps
  outside the window, malformed items), on every host and for every window size \<open>days\<close>
  for which the Dates of the loop are valid, \<^verbatim>\<open>buildDailySeries\<close> returns exactly
  \<open>days\<close> labels and \<open>days\<close> counts. The label at position \<open>j\<close> is the first ten
  characters of the ISO text of the Date \<open>days - 1 - j\<close> local days before today, so the
  oldest comes first and today last; these Dates are in ascending order of time on a
  host whose offsets from UTC differ by at most a day, and on a host whose offset is
  steady over the window the labels are the \<open>days\<close> consecutive UTC days that end with
  today's. The count of a label is 0 when no statistic of the listed tracks has that
  label as its day key.
\<close>

theorem C1_daily_series_has_exactly_N_entries:
  assumes "datesValid host today days"
  shows "\<exists>labels series ts.
      buildDailySeries host storage trackKeys days today = Inr (labels, series)
    \<and> length labels = days \<and> length series = days \<and> length ts = days
    \<and> (\<forall>j<days. setDateBack host today (int (days - 1 - j)) = Some (ts ! j)
                \<and> labels ! j = take 10 (isoText (ts ! j)))
    \<and> ((\<forall>a b. localOffset host a - localOffset host b \<le> msPerDay) \<longrightarrow> sorted ts)
    \<and> (steadyOffset host today days \<longrightarrow> (\<forall>j<days. labels ! j = dayLabel today (days - 1 - j)))
    \<and> (\<forall>j<days. (\<forall>s\<in>set (allStats storage trackKeys). statDay s \<noteq> Some (Inr (labels ! j)))
          \<longrightarrow> series ! j = 0)"
proof -
  define c0 :: Counts where "c0 = (\<lambda>x. if x \<in> backKey host today ` {..<days} then Some 0 else None)"
  define counts where "counts = fold (countTrack storage) trackKeys c0"
  define labels where "labels = map (backKey host today) (rev [0..<days])"
  define series where "series = map (\<lambda>l. case counts l of None \<Rightarrow> 0 | Some c \<Rightarrow> c) labels"
  define bt where "bt i = (case setDateBack host today (int i) of None \<Rightarrow> 0 | Some t \<Rightarrow> t)" for i
  define ts where "ts = map bt (rev [0..<days])"
  define lt where "lt = LocalTime host today"
  have r: "buildDailySeries host storage trackKeys days today = Inr (labels, series)"
    unfolding labels_def series_def counts_def c0_def using assms by (rule buildDailySeries_ok)
  have len: "length labels = days" "length series = days" "length ts = days"
    by (simp_all add: labels_def series_def ts_def)
  have m: "labels ! j = backKey host today (days - 1 - j)" if "j < days" for j
    unfolding labels_def using that by (rule label_nth)
  have tn: "ts ! j = bt (days - 1 - j)" if "j < days" for j
    using that by (simp add: ts_def rev_nth)
  have sb: "setDateBack host today (int i) = Some (bt i)" if i: "i < days" for i
  proof -
    obtain t where "setDateBack host today (int i) = Some t"
      using datesValid_nth [OF assms i] by blast
    then show ?thesis by (simp add: bt_def)
  qed
  have d: "setDateBack host today (int (days - 1 - j)) = Some (ts ! j)
      \<and> labels ! j = take 10 (isoText (ts ! j))" if j: "j < days" for j
  proof -
    have i: "days - 1 - j < days" using j by simp
    have e: "setDateBack host today (int (days - 1 - j)) = Some (bt (days - 1 - j))"
      using i by (rule sb)
    show ?thesis
      unfolding m [OF j] tn [OF j] backKey_def e by simp
  qed
  have val: "bt i = lt - int i * msPerDay - localOffset host (lt - int i * msPerDay)"
    if i: "i < days" for i
  proof -
    have "0 < days" using i by simp
    with assms have v: "validTime today" by (rule datesValid_today)
    have "TimeClip (lt - int i * msPerDay - localOffset host (lt - int i * msPerDay)) = Some (bt i)"
      unfolding lt_def using setDateBack_local [OF v, of host "int i"] sb [OF i] by simp
    then show ?thesis by (simp add: TimeClip_def split: if_splits)
  qed
  have srt: "sorted ts" if sp: "\<forall>a b. localOffset host a - localOffset host b \<le> msPerDay"
  proof -
    have "ts ! j \<le> ts ! k" if jk: "j \<le> k" "k < days" for j k
    proof (cases "j = k")
      case True
      then show ?thesis by simp
    next
      case False
      define a where "a = days - 1 - j"
      define b where "b = days - 1 - k"
      have ab: "b < a" "a < days" "b < days" using jk False by (simp_all add: a_def b_def)
      then have "int b + 1 \<le> int a" by simp
      then have "(int b + 1) * msPerDay \<le> int a * msPerDay"
        by (rule mult_right_mono) (simp add: msPerDay_def)
      then have step: "int b * msPerDay + msPerDay \<le> int a * msPerDay"
        by (simp add: algebra_simps)
      have "localOffset host (lt - int b * msPerDay) - localOffset host (lt - int a * msPerDay)
          \<le> msPerDay"
        using sp by blast
      then have "bt a \<le> bt b"
        using step by (simp add: val [OF ab(2)] val [OF ab(3)])
      moreover have "j < days" using jk by simp
      ultimately show ?thesis using jk by (simp add: tn a_def b_def)
    qed
    then show ?thesis by (simp add: sorted_iff_nth_mono len)
  qed
  have st: "labels ! j = dayLabel today (days - 1 - j)"
    if s: "steadyOffset host today days" and j: "j < days" for j
  proof -
    have i: "days - 1 - j < days" using j by simp
    show ?thesis using m [OF j] steady_back(3) [OF assms s i] by simp
  qed
  have z: "series ! j = 0"
    if j: "j < days" and q: "\<forall>s\<in>set (allStats storage trackKeys). statDay s \<noteq> Some (Inr (labels ! j))"
    for j
  proof -
    have mem: "backKey host today (days - 1 - j) \<in> backKey host today ` {..<days}" using j by auto
    have "counts (labels ! j) = c0 (labels ! j)"
      unfolding counts_def using q by (rule tracks_untouched)
    also have "\<dots> = Some 0" by (simp only: m [OF j] c0_def mem if_True)
    finally have "counts (labels ! j) = Some 0" .
    moreover have "series ! j = (case counts (labels ! j) of None \<Rightarrow> 0 | Some c \<Rightarrow> c)"
      using j len by (simp add: series_def)
    ultimately show ?thesis by simp
  qed
  show ?thesis
    using r len d srt st z by blast
qed

theorem C1_daily_series_has_exactly_N_entries_witness:
  "datesValid (fixedHost 19800000) exampleToday defaultDays
   \<and> steadyOffset (fixedHost 19800000) exampleToday defaultDays
   \<and> (\<exists>labels series ts.
        buildDailySeries (fixedHost 19800000) seriesStorage defaultTrackKeys defaultDays exampleToday
          = Inr (labels, series)
      \<and> length labels = defaultDays \<and> length series = defaultDays \<and> length ts = defaultDays
      \<and> (\<forall>j<defaultDays.
            setDateBack (fixedHost 19800000) exampleToday (int (defaultDays - 1 - j)) = Some (ts ! j)
            \<and> labels ! j = take 10 (isoText (ts ! j)))
      \<and> sorted ts
      \<and> (\<forall>j<defaultDays. labels ! j = dayLabel exampleToday (defaultDays - 1 - j))
      \<and> (\<forall>j<defaultDays.
            (\<forall>s\<in>set (allStats seriesStorage defaultTrackKeys).
                statDay s \<noteq> Some (Inr (labels ! j)))
            \<longrightarrow> series ! j = 0))
   \<and> buildDailySeries (fixedHost 19800000) seriesStorage defaultTrackKeys defaultDays exampleToday
       = Inr (exampleLabels,
              [3, 0, 0, 0, 0, 0, 0, 0, 0, 0, 0, 0, 0, 1])"
proof -
  have h1: "datesValid (fixedHost 19800000) exampleToday defaultDays"
    by code_simp
  have h2: "steadyOffset (fixedHost 19800000) exampleToday defaultDays"
    by (rule steadyOffset_fixedHost)
  have h3: "\<forall>a b. localOffset (fixedHost 19800000) a - localOffset (fixedHost 19800000) b \<le> msPerDay"
    by (simp add: fixedHost_def msPerDay_def)
  obtain labels series ts where
    r: "buildDailySeries (fixedHost 19800000) seriesStorage defaultTrackKeys defaultDays exampleToday
          = Inr (labels, series)"
    and len: "length labels = defaultDays" "length series = defaultDays" "length ts = defaultDays"
    and d: "\<forall>j<defaultDays.
            setDateBack (fixedHost 19800000) exampleToday (int (defaultDays - 1 - j)) = Some (ts ! j)
            \<and> labels ! j = take 10 (isoText (ts ! j))"
    and srt: "(\<forall>a b. localOffset (fixedHost 19800000) a - localOffset (fixedHost 19800000) b \<le> msPerDay)
           \<longrightarrow> sorted ts"
    and st: "steadyOffset (fixedHost 19800000) exampleToday defaultDays
           \<longrightarrow> (\<forall>j<defaultDays. labels ! j = dayLabel exampleToday (defaultDays - 1 - j))"
    and z: "\<forall>j<defaultDays.
            (\<forall>s\<in>set (allStats seriesStorage defaultTrackKeys).
                statDay s \<noteq> Some (Inr (labels ! j)))
            \<longrightarrow> series ! j = 0"
    using C1_daily_series_has_exactly_N_entries [OF h1, of seriesStorage defaultTrackKeys]
    by blast
  have srt': "sorted ts" using srt h3 by (rule mp)
  have st': "\<forall>j<defaultDays. labels ! j = dayLabel exampleToday (defaultDays - 1 - j)"
    using st h2 by (rule mp)
  have c: "\<exists>labels series ts.
        buildDailySeries (fixedHost 19800000) seriesStorage defaultTrackKeys defaultDays exampleToday
          = Inr (labels, series)
      \<and> length labels = defaultDays \<and> length series = defaultDays \<and> length ts = defaultDays
      \<and> (\<forall>j<defaultDays.
            setDateBack (fixedHost 19800000) exampleToday (int (defaultDays - 1 - j)) = Some (ts ! j)
            \<and> labels ! j = take 10 (isoText (ts ! j)))
      \<and> sorted ts
      \<and> (\<forall>j<defaultDays. labels ! j = dayLabel exampleToday (defaultDays - 1 - j))
      \<and> (\<forall>j<defaultDays.
            (\<forall>s\<in>set (allStats seriesStorage defaultTrackKeys).
                statDay s \<noteq> Some (Inr (labels ! j)))
            \<longrightarrow> series ! j = 0)"
    using r len d srt' st' z by blast
  have e: "buildDailySeries (fixedHost 19800000) seriesStorage defaultTrackKeys defaultDays exampleToday
       = Inr (exampleLabels,
              [3, 0, 0, 0, 0, 0, 0, 0, 0, 0, 0, 0, 0, 1])"
    by code_simp
  show ?thesis using h1 h2 c e by (intro conjI)
qed

text \<open>
  On a host with daylight saving the labels need not be consecutive days. In New York,
  at 19:30 local time on 2026-11-01 (00:30 UTC on 2026-11-02), the day after the clocks
  went back, the three labels are 2026-10-30, 2026-10-31 and 2026-11-02: the local
  evening of 2026-10-31 is still 2026-10-31 in UTC. An entry of four attempts dated
  2026-11-01 is then counted nowhere, while a host on UTC counts it. In the spring a
  label comes twice: at 19:30 local time on 2026-03-10 the labels of the days 2026-03-07
  and 2026-03-08 are both 2026-03-08, and an entry of that day is shown in both.
\<close>

lemma daily_series_on_a_host_with_daylight_saving:
  "buildDailySeries newYorkHost
     (\<lambda>k. if k = ''jc_progress''
          then Stored [(''p1'', \<lparr>attempts = 4, passes = 1, last_time = Some 1793534400000\<rparr>)]
          else Missing)
     [''jc_progress''] 3 1793579400000
   = Inr ([''2026-10-30'', ''2026-10-31'', ''2026-11-02''], [0, 0, 0])
   \<and> buildDailySeries (fixedHost 0)
     (\<lambda>k. if k = ''jc_progress''
          then Stored [(''p1'', \<lparr>attempts = 4, passes = 1, last_time = Some 1793534400000\<rparr>)]
          else Missing)
     [''jc_progress''] 3 1793579400000
   = Inr ([''2026-10-31'', ''2026-11-01'', ''2026-11-02''], [0, 4, 0])
   \<and> buildDailySeries newYorkHost
     (\<lambda>k. if k = ''jc_progress''
          then Stored [(''p1'', \<lparr>attempts = 2, passes = 1, last_time = Some 1772971200000\<rparr>)]
          else Missing)
     [''jc_progress''] 4 1773185400000
   = Inr ([''2026-03-08'', ''2026-03-08'', ''2026-03-09'', ''2026-03-10''], [2, 2, 0, 0])"
  by code_simp

subsection \<open>Which day a time stamp counts for\<close>

lemma statDay_inYears:
  assumes "\<forall>t. last_time s = Some t \<longrightarrow> t \<noteq> 0 \<longrightarrow> inYearsT t" "inYearsT u"
  shows "(statDay s = Some (Inr (take 10 (isoText u)))) = onDayNumber (Day u) s"
      and "statDay s \<noteq> Some (Inl e)"
proof -
  show "(statDay s = Some (Inr (take 10 (isoText u)))) = onDayNumber (Day u) s"
  proof (cases "last_time s")
    case None
    then show ?thesis by (simp add: statDay_def onDayNumber_def)
  next
    case (Some t)
    show ?thesis
    proof (cases "t = 0")
      case True
      then show ?thesis using Some by (simp add: statDay_def onDayNumber_def)
    next
      case False
      then have t: "inYearsT t" using assms(1) Some by simp
      have "isoDay (TimeClip u) = Inr (take 10 (isoText u))"
        using assms(2) by (simp add: isoDay_valid inYearsT_valid)
      then have "(isoDay (TimeClip t) = Inr (take 10 (isoText u))) = (Day t = Day u)"
        using isoDay_inj [OF t assms(2)] by simp
      then show ?thesis using Some False by (simp add: statDay_def onDayNumber_def newDate_def)
    qed
  qed
  show "statDay s \<noteq> Some (Inl e)"
    using assms(1)
    by (auto simp: statDay_def newDate_def isoDay_valid inYearsT_valid split: option.splits)
qed


lemma stats_do_not_throw:
  assumes "\<forall>s\<in>set ss. \<forall>t. last_time s = Some t \<longrightarrow> t \<noteq> 0 \<longrightarrow> inYearsT t"
  shows "\<forall>s\<in>set ss. \<forall>e. statDay s \<noteq> Some (Inl e)"
proof (intro ballI allI)
  fix s e assume "s \<in> set ss"
  then have a: "\<forall>t. last_time s = Some t \<longrightarrow> t \<noteq> 0 \<longrightarrow> inYearsT t" using assms by blast
  have "inYearsT 0" by (simp add: inYearsT_def)
  with a show "statDay s \<noteq> Some (Inl e)" by (rule statDay_inYears(2))
qed

text \<open>
  Claim C4, as the code has it. The window is the \<open>days\<close> days that end with today, so
  with 14 days its oldest day is 13 days before today. On a host whose offset is steady
  over the window, and for time stamps of the years 0000 to 9999, the labels are the
  \<open>days\<close> consecutive UTC days that end with today's, and the count at position \<open>j\<close> is the
  sum of \<^verbatim>\<open>attempts || 1\<close> over exactly the statistics whose time stamp is on the UTC
  day \<open>days - 1 - j\<close> days before today's. A statistic 13 days back is counted in the
  oldest bucket; one 14 or 15 days back is on none of these days and is counted nowhere.
\<close>

theorem C4_window_is_the_days_ending_today:
  assumes "inYearsT today" "inYearsT (today - int (days - 1) * msPerDay)"
    and "steadyOffset host today days"
    and "\<forall>s\<in>set (allStats storage trackKeys). \<forall>t. last_time s = Some t \<longrightarrow> t \<noteq> 0 \<longrightarrow> inYearsT t"
  shows "\<exists>labels series.
      buildDailySeries host storage trackKeys days today = Inr (labels, series)
    \<and> length labels = days \<and> length series = days
    \<and> (\<forall>j<days. labels ! j = dayLabel today (days - 1 - j))
    \<and> (\<forall>j<days. series ! j =
          sum_list (map attemptsOr1
            (filter (onDayNumber (Day today - int (days - 1 - j))) (allStats storage trackKeys))))"
proof -
  define labels where "labels = map (backKey host today) (rev [0..<days])"
  define series where "series = map (\<lambda>l. case fold (countTrack storage) trackKeys
                          (\<lambda>x. if x \<in> backKey host today ` {..<days} then Some 0 else None) l
                     of None \<Rightarrow> 0 | Some c \<Rightarrow> c) labels"
  have w: "\<forall>i<days. inYearsT (today - int i * msPerDay)"
    using assms(1,2) by (rule window_inYears)
  have dv: "datesValid host today days"
    using assms(1,2,3) by (intro datesValid_steady inYearsT_valid)
  have r: "buildDailySeries host storage trackKeys days today = Inr (labels, series)"
    unfolding labels_def series_def using dv by (rule buildDailySeries_ok)
  have len: "length labels = days" "length series = days"
    by (simp_all add: labels_def series_def)
  have nothrow: "\<forall>s\<in>set (allStats storage trackKeys). \<forall>e. statDay s \<noteq> Some (Inl e)"
    using assms(4) by (rule stats_do_not_throw)
  have m: "labels ! j = dayLabel today (days - 1 - j)" if j: "j < days" for j
  proof -
    have i: "days - 1 - j < days" using j by simp
    have "labels ! j = backKey host today (days - 1 - j)"
      unfolding labels_def using j by (rule label_nth)
    then show ?thesis by (simp only: steady_back(3) [OF dv assms(3) i])
  qed
  have b: "series ! j = sum_list (map attemptsOr1
            (filter (onDayNumber (Day today - int (days - 1 - j))) (allStats storage trackKeys)))"
    if j: "j < days" for j
  proof -
    define i where "i = days - 1 - j"
    have i: "i < days" using j by (simp add: i_def)
    have u: "inYearsT (today - int i * msPerDay)" using w i by blast
    have k: "backKey host today i = take 10 (isoText (today - int i * msPerDay))"
      by (simp only: steady_back(3) [OF dv assms(3) i] dayLabel_def)
    have f: "filter (\<lambda>s. statDay s = Some (Inr (backKey host today i))) (allStats storage trackKeys)
        = filter (onDayNumber (Day today - int i)) (allStats storage trackKeys)"
    proof (rule filter_cong [OF refl])
      fix s assume "s \<in> set (allStats storage trackKeys)"
      then have "\<forall>t. last_time s = Some t \<longrightarrow> t \<noteq> 0 \<longrightarrow> inYearsT t" using assms(4) by blast
      then have "(statDay s = Some (Inr (take 10 (isoText (today - int i * msPerDay)))))
          = onDayNumber (Day (today - int i * msPerDay)) s"
        using u by (rule statDay_inYears(1))
      then show "(statDay s = Some (Inr (backKey host today i))) = onDayNumber (Day today - int i) s"
        by (simp only: k Day_back)
    qed
    have "series ! j = sum_list (map attemptsOr1
           (filter (\<lambda>s. statDay s = Some (Inr (backKey host today (days - 1 - j))))
              (allStats storage trackKeys)))"
      unfolding series_def labels_def using nothrow j by (rule series_nth)
    then show ?thesis by (simp only: i_def [symmetric] f)
  qed
  show ?thesis
    using r len m b by blast
qed

theorem C4_window_is_the_days_ending_today_witness:
  "inYearsT exampleToday
   \<and> inYearsT (exampleToday - int (14 - 1) * msPerDay)
   \<and> steadyOffset (fixedHost 19800000) exampleToday 14
   \<and> list_all (\<lambda>s. case last_time s of None \<Rightarrow> True | Some t \<Rightarrow> t = 0 \<or> inYearsT t)
        (allStats seriesStorage defaultTrackKeys)
   \<and> (\<exists>labels series.
        buildDailySeries (fixedHost 19800000) seriesStorage defaultTrackKeys 14 exampleToday
          = Inr (labels, series)
      \<and> length labels = 14 \<and> length series = 14
      \<and> (\<forall>j<14. labels ! j = dayLabel exampleToday (14 - 1 - j))
      \<and> (\<forall>j<14. series ! j =
            sum_list (map attemptsOr1
              (filter (onDayNumber (Day exampleToday - int (14 - 1 - j)))
                 (allStats seriesStorage defaultTrackKeys)))))
   \<and> Day 1792470600000 = Day exampleToday - 13
   \<and> Day 1792384200000 = Day exampleToday - 14
   \<and> buildDailySeries (fixedHost 19800000) seriesStorage defaultTrackKeys 14 exampleToday
       = Inr (exampleLabels,
              [3, 0, 0, 0, 0, 0, 0, 0, 0, 0, 0, 0, 0, 1])"
proof -
  have h1: "inYearsT exampleToday"
    by (simp add: inYearsT_def exampleToday_def)
  have h2: "inYearsT (exampleToday - int (14 - 1) * msPerDay)"
    by (simp add: inYearsT_def msPerDay_def exampleToday_def)
  have h3: "steadyOffset (fixedHost 19800000) exampleToday 14"
    by (rule steadyOffset_fixedHost)
  have h4: "\<forall>s\<in>set (allStats seriesStorage defaultTrackKeys).
      \<forall>t. last_time s = Some t \<longrightarrow> t \<noteq> 0 \<longrightarrow> inYearsT t"
    by (simp add: allStats_def getProgress_def parseItem_def defaultTrackKeys_def inYearsT_def
        seriesStorage_def)
  have h4': "list_all (\<lambda>s. case last_time s of None \<Rightarrow> True | Some t \<Rightarrow> t = 0 \<or> inYearsT t)
        (allStats seriesStorage defaultTrackKeys)"
    by (simp add: allStats_def getProgress_def parseItem_def defaultTrackKeys_def inYearsT_def
        seriesStorage_def)
  have c: "\<exists>labels series.
        buildDailySeries (fixedHost 19800000) seriesStorage defaultTrackKeys 14 exampleToday
          = Inr (labels, series)
      \<and> length labels = 14 \<and> length series = 14
      \<and> (\<forall>j<14. labels ! j = dayLabel exampleToday (14 - 1 - j))
      \<and> (\<forall>j<14. series ! j =
            sum_list (map attemptsOr1
              (filter (onDayNumber (Day exampleToday - int (14 - 1 - j)))
                 (allStats seriesStorage defaultTrackKeys))))"
    using h1 h2 h3 h4 by (rule C4_window_is_the_days_ending_today)
  have d: "Day 1792470600000 = Day exampleToday - 13" "Day 1792384200000 = Day exampleToday - 14"
    by (simp_all add: Day_def msPerDay_def exampleToday_def)
  have e: "buildDailySeries (fixedHost 19800000) seriesStorage defaultTrackKeys 14 exampleToday
       = Inr (exampleLabels,
              [3, 0, 0, 0, 0, 0, 0, 0, 0, 0, 0, 0, 0, 1])"
    by code_simp
  show ?thesis using h1 h2 h3 h4' c d e by (intro conjI)
qed

text \<open>
  Claim C4 as the specification words it (a time stamp exactly 14 days before today is
  inside the window of 14 days and its attempts are counted) fails: on a host on UTC,
  with today 2026-11-02 and one statistic of 3 attempts dated 2026-10-19, 14 days
  before, the labels run from 2026-10-20 to 2026-11-02 and every count is 0.
\<close>

theorem C4_counterexample:
  "buildDailySeries (fixedHost 0)
     (\<lambda>k. if k = ''jc_progress''
          then Stored [(''p1'', \<lparr>attempts = 3, passes = 1, last_time = Some 1792384200000\<rparr>)]
          else Missing)
     [''jc_progress''] 14 1793593800000
   = Inr ([''2026-10-20'', ''2026-10-21'', ''2026-10-22'', ''2026-10-23'', ''2026-10-24'',
           ''2026-10-25'', ''2026-10-26'', ''2026-10-27'', ''2026-10-28'', ''2026-10-29'',
           ''2026-10-30'', ''2026-10-31'', ''2026-11-01'', ''2026-11-02''],
          [0, 0, 0, 0, 0, 0, 0, 0, 0, 0, 0, 0, 0, 0])
   \<and> Day 1792384200000 = Day 1793593800000 - 14
   \<and> isoDay (newDate 1792384200000) = Inr ''2026-10-19''"
  by code_simp

text \<open>
  Within two weeks after a change of the clocks the window is another one. In London,
  at 00:30 on 2026-11-02, eight days after the clocks went back, the 14 labels start
  with 2026-10-19 and leave 2026-10-25 out, and the statistic dated 2026-10-19 is
  counted in the oldest bucket.
\<close>

lemma window_after_a_change_of_the_clocks:
  "buildDailySeries londonHost
     (\<lambda>k. if k = ''jc_progress''
          then Stored [(''p1'', \<lparr>attempts = 3, passes = 1, last_time = Some 1792384200000\<rparr>)]
          else Missing)
     [''jc_progress''] 14 1793579400000
   = Inr ([''2026-10-19'', ''2026-10-20'', ''2026-10-21'', ''2026-10-22'', ''2026-10-23'',
           ''2026-10-24'', ''2026-10-26'', ''2026-10-27'', ''2026-10-28'', ''2026-10-29'',
           ''2026-10-30'', ''2026-10-31'', ''2026-11-01'', ''2026-11-02''],
          [3, 0, 0, 0, 0, 0, 0, 0, 0, 0, 0, 0, 0, 0])
   \<and> steadyOffset londonHost 1793579400000 14 = False"
  by code_simp

section \<open>Properties of the streak\<close>

lemma calcStreakLoop_run:
  assumes "datesValid host today 365"
  shows "k = 365 - offset \<Longrightarrow> 1 \<le> offset \<Longrightarrow> offset \<le> 365 \<Longrightarrow>
     calcStreakLoop host today S offset n =
       Inr (n + length (takeWhile (\<lambda>i. backKey host today i \<in> S) [offset..<365]))"
proof (induction k arbitrary: offset n)
  case 0
  then have "offset = 365" by simp
  then show ?case by (simp add: calcStreakLoop.simps)
next
  case (Suc k)
  then have lt: "offset < 365" by simp
  have key: "isoDay (setDateBack host today (int offset)) = Inr (backKey host today offset)"
    using assms lt by (rule isoDay_setDateBack)
  have up: "[offset..<365] = offset # [offset + 1..<365]"
    using lt by (simp add: upt_conv_Cons)
  have ih: "calcStreakLoop host today S (offset + 1) m =
       Inr (m + length (takeWhile (\<lambda>i. backKey host today i \<in> S) [offset + 1..<365]))" for m
    using Suc.prems by (intro Suc.IH) simp_all
  have step: "calcStreakLoop host today S offset n =
      (if backKey host today offset \<in> S then calcStreakLoop host today S (offset + 1) (n + 1)
       else Inr n)"
    using lt Suc.prems(2) by (subst calcStreakLoop.simps) (simp add: key)
  show ?case by (simp only: step ih up) simp
qed

lemma calcStreak_eq:
  assumes "datesValid host today 365"
  shows "calcStreak host today S =
     Inr ((if backKey host today 0 \<in> S then 1 else 0)
          + length (takeWhile (\<lambda>i. backKey host today i \<in> S) [1..<365]))"
proof -
  have key: "isoDay (setDateBack host today (int 0)) = Inr (backKey host today 0)"
    using assms by (rule isoDay_setDateBack) simp
  have run: "calcStreakLoop host today S (0 + 1) m =
       Inr (m + length (takeWhile (\<lambda>i. backKey host today i \<in> S) [1..<365]))" for m
    using calcStreakLoop_run [OF assms, of 364 1 S m] by simp
  have "calcStreak host today S =
      (if backKey host today 0 \<in> S then calcStreakLoop host today S (0 + 1) (0 + 1)
       else calcStreakLoop host today S (0 + 1) 0)"
    unfolding calcStreak_def using key by (subst calcStreakLoop.simps) simp
  then show ?thesis by (simp only: run) simp
qed





section \<open>Properties of the numbers\<close>

lemma roundHalfEven_le: "x \<le> of_int n \<Longrightarrow> roundHalfEven x \<le> n"
proof -
  assume a: "x \<le> of_int n"
  have f: "\<lfloor>x\<rfloor> \<le> n" using a by (simp add: floor_le_iff)
  show ?thesis
  proof (cases "x = of_int \<lfloor>x\<rfloor>")
    case True
    then have "x - of_int \<lfloor>x\<rfloor> = 0" by simp
    then show ?thesis using f by (simp add: roundHalfEven_def Let_def)
  next
    case False
    then have "of_int \<lfloor>x\<rfloor> < x" using of_int_floor_le [of x] by (auto simp: less_le)
    then have "of_int \<lfloor>x\<rfloor> < (of_int n :: rat)" using a by simp
    then have "\<lfloor>x\<rfloor> < n" by simp
    then show ?thesis by (simp add: roundHalfEven_def Let_def)
  qed
qed

lemma roundHalfEven_nonneg: "0 \<le> x \<Longrightarrow> 0 \<le> roundHalfEven x"
  by (simp add: roundHalfEven_def Let_def)

lemma ilog2_le:
  assumes "0 < x"
  shows "2 powi (ilog2 x) \<le> x"
proof -
  obtain n d where q: "quotient_of x = (n, d)" by (cases "quotient_of x")
  have d: "0 < d" using q by (rule quotient_of_denom_pos)
  have x: "x = of_int n / of_int d" using q by (rule quotient_of_div)
  have n: "0 < n" using assms d x by (simp add: zero_less_divide_iff)
  define k where "k = bitlen n - bitlen d"
  show ?thesis
  proof (cases "2 powi k \<le> x")
    case True
    then show ?thesis by (simp add: ilog2_def q k_def Let_def)
  next
    case False
    have bn: "1 \<le> bitlen n" using n by (simp add: bitlen_alt_def)
    have bd: "1 \<le> bitlen d" using d by (simp add: bitlen_alt_def)
    have ln: "2 ^ nat (bitlen n - 1) \<le> n" using bitlen_bounds [OF n] by simp
    have ud: "d < 2 ^ nat (bitlen d)" using bitlen_bounds [OF d] by simp
    have ln': "(2::rat) ^ nat (bitlen n - 1) \<le> of_int n"
      using ln by (metis of_int_le_iff of_int_numeral of_int_power)
    have ud': "(of_int d :: rat) \<le> 2 ^ nat (bitlen d)"
      using ud by (metis less_imp_le of_int_le_iff of_int_numeral of_int_power)
    have "(2::rat) powi (k - 1) = 2 powi (bitlen n - 1) / 2 powi (bitlen d)"
      by (simp add: k_def power_int_diff)
    also have "\<dots> = 2 ^ nat (bitlen n - 1) / 2 ^ nat (bitlen d)"
      using bn bd by (simp add: power_int_def)
    also have "\<dots> \<le> of_int n / of_int d"
      using ln' ud' d n by (intro frac_le) simp_all
    finally have "2 powi (k - 1) \<le> x" using x by simp
    then show ?thesis using False by (simp add: ilog2_def q k_def Let_def)
  qed
qed

lemma binary64_le_nat:
  assumes "0 < x" "x \<le> of_nat r" "r < 2 ^ 53"
  shows "binary64 x \<le> of_nat r"
proof -
  define e where "e = ilog2 x"
  define u :: rat where "u = 2 powi (e - 52)"
  have "2 powi e \<le> x" unfolding e_def using assms(1) by (rule ilog2_le)
  also have "x \<le> of_nat r" by (rule assms(2))
  also have "(of_nat r :: rat) < 2 ^ 53" using assms(3) by (metis of_nat_less_iff of_nat_numeral of_nat_power)
  finally have "(2::rat) powi e < 2 powi 53" by simp
  then have "e < 53" by (rule power_int_le_imp_less_exp [rotated]) simp_all
  then have e: "e \<le> 52" by simp
  have upos: "0 < u" by (simp add: u_def)
  have ui: "1 / u = of_int (2 ^ nat (52 - e))"
    using e by (simp add: u_def power_int_def field_simps)
  have "x / u \<le> of_nat r / u" using assms(2) upos by (simp add: divide_right_mono)
  also have "of_nat r / u = of_int (int r * 2 ^ nat (52 - e))"
  proof -
    have "of_nat r / u = of_nat r * (1 / u)" by simp
    also have "\<dots> = of_nat r * of_int (2 ^ nat (52 - e))" by (simp only: ui)
    also have "\<dots> = of_int (int r * 2 ^ nat (52 - e))" by simp
    finally show ?thesis .
  qed
  finally have "roundHalfEven (x / u) \<le> int r * 2 ^ nat (52 - e)"
    by (rule roundHalfEven_le)
  then have "(of_int (roundHalfEven (x / u)) :: rat) \<le> of_int (int r * 2 ^ nat (52 - e))"
    by (simp only: of_int_le_iff)
  then have "of_int (roundHalfEven (x / u)) * u \<le> of_int (int r * 2 ^ nat (52 - e)) * u"
    using upos by (simp add: mult_right_mono)
  also have "of_int (int r * 2 ^ nat (52 - e)) * u = of_nat r"
  proof -
    have "of_int (int r * 2 ^ nat (52 - e)) * u = of_nat r * (of_int (2 ^ nat (52 - e)) * u)"
      by simp
    also have "of_int (2 ^ nat (52 - e)) * u = 1"
      using upos by (simp only: ui [symmetric]) simp
    finally show ?thesis by simp
  qed
  finally show ?thesis
    using assms(1) by (simp add: binary64_def Let_def e_def u_def)
qed

lemma binary64_nonneg: "0 \<le> x \<Longrightarrow> 0 \<le> binary64 x"
  by (simp add: binary64_def Let_def roundHalfEven_nonneg)

lemma pct_range:
  assumes "p \<le> a"
  shows "0 \<le> pct p a \<and> pct p a \<le> 100"
proof (cases "a = 0 \<or> p = 0")
  case True
  then show ?thesis by (auto simp: pct_def Math_round_def binary64_def)
next
  case False
  then have pa: "0 < p" "0 < a" by simp_all
  define q :: rat where "q = of_nat p / of_nat a"
  have q0: "0 < q" using pa by (simp add: q_def)
  have q1: "q \<le> of_nat 1" using assms pa by (simp add: q_def)
  have b1: "binary64 q \<le> of_nat 1" using q0 q1 by (rule binary64_le_nat) simp
  have b0: "0 \<le> binary64 q" using q0 by (simp add: binary64_nonneg)
  define y where "y = binary64 q * 100"
  have y0: "0 \<le> y" using b0 by (simp add: y_def)
  have y1: "y \<le> of_nat 100" using b1 by (simp add: y_def)
  have c1: "binary64 y \<le> of_nat 100"
  proof (cases "y = 0")
    case True
    then show ?thesis by (simp add: binary64_def)
  next
    case False
    then have "0 < y" using y0 by simp
    then show ?thesis using y1 by (rule binary64_le_nat) simp
  qed
  have c0: "0 \<le> binary64 y" using y0 by (rule binary64_nonneg)
  have "pct p a = \<lfloor>binary64 y + 1 / 2\<rfloor>"
    using pa by (simp add: pct_def Math_round_def y_def q_def)
  moreover have "0 \<le> \<lfloor>binary64 y + 1 / 2\<rfloor>" using c0 by simp
  moreover have "\<lfloor>binary64 y + 1 / 2\<rfloor> \<le> 100" using c1 by (simp add: floor_le_iff)
  ultimately show ?thesis by simp
qed


section \<open>Properties of the track statistics\<close>

lemma datedTimes_Nil [simp]: "datedTimes [] = []"
  by (simp add: datedTimes_def map_filter_simps)

lemma datedTimes_Cons:
  "datedTimes (s # ss) =
     (case last_time s of None \<Rightarrow> datedTimes ss
      | Some t \<Rightarrow> if t = 0 then datedTimes ss else t # datedTimes ss)"
  by (simp add: datedTimes_def map_filter_simps split: option.splits)

lemma hasLast_iff: "hasLast s = (\<exists>t. last_time s = Some t \<and> t \<noteq> 0)"
  by (simp add: hasLast_def split: option.splits)

lemma statsLoop_step:
  "statsLoop (s # ss) (stats, cur) =
     (if hasLast s \<and> (lastActive stats = None
          \<or> dateGreater (case last_time s of None \<Rightarrow> None | Some t \<Rightarrow> newDate t) cur)
      then (case toISOString (case last_time s of None \<Rightarrow> None | Some t \<Rightarrow> newDate t) of
              Inl e \<Rightarrow> Inl e
            | Inr txt \<Rightarrow>
                statsLoop ss
                  (stats\<lparr>attempts_sum := attempts_sum stats + attempts s,
                         passes_sum := passes_sum stats + passes s,
                         solved := solved stats + (if 0 < passes s then 1 else 0),
                         lastActive := Some txt\<rparr>,
                   case last_time s of None \<Rightarrow> None | Some t \<Rightarrow> newDate t))
      else statsLoop ss
             (stats\<lparr>attempts_sum := attempts_sum stats + attempts s,
                    passes_sum := passes_sum stats + passes s,
                    solved := solved stats + (if 0 < passes s then 1 else 0)\<rparr>, cur))"
  by (cases "0 < passes s") (simp_all add: Let_def split: sum.splits)

lemma statsLoop_ok:
  assumes "\<forall>t\<in>set (datedTimes ss). validTime t"
      and "lastActive stats = map_option isoText cur"
  shows "statsLoop ss (stats, cur) =
     Inr (stats\<lparr>attempts_sum := attempts_sum stats + sum_list (map attempts ss),
                passes_sum := passes_sum stats + sum_list (map passes ss),
                solved := solved stats + length (filter (\<lambda>s. 0 < passes s) ss),
                lastActive := map_option isoText (fold later (datedTimes ss) cur)\<rparr>,
          fold later (datedTimes ss) cur)"
  using assms
proof (induction ss arbitrary: stats cur)
  case Nil
  then show ?case by simp
next
  case (Cons s ss)
  define stats3 where "stats3 =
     stats\<lparr>attempts_sum := attempts_sum stats + attempts s,
            passes_sum := passes_sum stats + passes s,
            solved := solved stats + (if 0 < passes s then 1 else 0)\<rparr>"
  have la3: "lastActive stats3 = map_option isoText cur"
    using Cons.prems(2) by (simp add: stats3_def)
  show ?case
  proof (cases "hasLast s")
    case False
    then have dt: "datedTimes (s # ss) = datedTimes ss"
      by (auto simp: datedTimes_Cons hasLast_iff split: option.splits)
    have v: "\<forall>t\<in>set (datedTimes ss). validTime t" using Cons.prems(1) dt by simp
    have step: "statsLoop (s # ss) (stats, cur) = statsLoop ss (stats3, cur)"
      using False by (simp only: statsLoop_step stats3_def) simp
    show ?thesis
      unfolding step dt Cons.IH [OF v la3]
      by (simp add: stats3_def)
  next
    case True
    then obtain t where t: "last_time s = Some t" "t \<noteq> 0"
      by (auto simp: hasLast_iff)
    have dt: "datedTimes (s # ss) = t # datedTimes ss"
      using t by (simp add: datedTimes_Cons)
    have vt: "validTime t" and v: "\<forall>t\<in>set (datedTimes ss). validTime t"
      using Cons.prems(1) dt by simp_all
    have d: "(case last_time s of None \<Rightarrow> None | Some t \<Rightarrow> newDate t) = Some t"
      using vt t by (simp add: newDate_def TimeClip_def)
    show ?thesis
    proof (cases "cur = None \<or> dateGreater (Some t) cur")
      case True
      then have l: "later t cur = Some t"
        by (auto simp: later_def dateGreater_def split: option.splits)
      have c: "lastActive stats = None \<or> dateGreater (Some t) cur"
        using True Cons.prems(2) by auto
      have la: "lastActive (stats3\<lparr>lastActive := Some (isoText t)\<rparr>) = map_option isoText (Some t)"
        by simp
      have step: "statsLoop (s # ss) (stats, cur) =
          statsLoop ss (stats3\<lparr>lastActive := Some (isoText t)\<rparr>, Some t)"
        using \<open>hasLast s\<close> c
        by (simp only: statsLoop_step d stats3_def) (simp add: toISOString_def)
      show ?thesis
        unfolding step dt Cons.IH [OF v la]
        by (simp add: stats3_def l)
    next
      case False
      then obtain b where b: "cur = Some b" "\<not> b < t"
        by (auto simp: dateGreater_def split: option.splits)
      then have l: "later t cur = cur" by (simp add: later_def)
      have c: "\<not> (lastActive stats = None \<or> dateGreater (Some t) cur)"
        using False Cons.prems(2) b by (simp add: dateGreater_def)
      have step: "statsLoop (s # ss) (stats, cur) = statsLoop ss (stats3, cur)"
        using c by (simp only: statsLoop_step d stats3_def) simp
      show ?thesis
        unfolding step dt Cons.IH [OF v la3]
        by (simp add: stats3_def l)
    qed
  qed
qed

lemma fold_later_Some: "fold later ts (Some b) = Some (fold max ts b)"
proof (induction ts arbitrary: b)
  case Nil
  then show ?case by simp
next
  case (Cons t ts)
  have "later t (Some b) = Some (max t b)" by (simp add: later_def max_def)
  then show ?case by (simp add: Cons.IH)
qed

lemma fold_later_None:
  "fold later ts None = (if ts = [] then None else Some (Max (set ts)))"
proof (cases ts)
  case Nil
  then show ?thesis by simp
next
  case (Cons t ts')
  have "fold later (t # ts') None = fold later ts' (Some t)" by (simp add: later_def)
  also have "\<dots> = Some (fold max ts' t)" by (rule fold_later_Some)
  also have "fold max ts' t = Max (set (t # ts'))" by (simp only: Max.set_eq_fold)
  finally show ?thesis using Cons by simp
qed

lemma daysLoop_ok:
  assumes "\<forall>t\<in>set (datedTimes ss). validTime t"
  shows "daysLoop ss S = Inr (S \<union> (\<lambda>t. take 10 (isoText t)) ` set (datedTimes ss))"
  using assms
proof (induction ss arbitrary: S)
  case Nil
  then show ?case by simp
next
  case (Cons s ss)
  show ?case
  proof (cases "hasLast s")
    case False
    then have dt: "datedTimes (s # ss) = datedTimes ss"
      by (auto simp: datedTimes_Cons hasLast_iff split: option.splits)
    have v: "\<forall>t\<in>set (datedTimes ss). validTime t" using Cons.prems dt by simp
    have step: "daysLoop (s # ss) S = daysLoop ss S"
      using False by (auto simp: hasLast_iff split: option.splits)
    show ?thesis unfolding step dt by (rule Cons.IH [OF v])
  next
    case True
    then obtain t where t: "last_time s = Some t" "t \<noteq> 0"
      by (auto simp: hasLast_iff)
    have dt: "datedTimes (s # ss) = t # datedTimes ss"
      using t by (simp add: datedTimes_Cons)
    have vt: "validTime t" and v: "\<forall>t\<in>set (datedTimes ss). validTime t"
      using Cons.prems dt by simp_all
    have step: "daysLoop (s # ss) S = daysLoop ss (insert (take 10 (isoText t)) S)"
      using t vt by (simp add: newDate_def isoDay_valid)
    show ?thesis unfolding step dt Cons.IH [OF v] by simp
  qed
qed

lemma computeTrackAnalytics_ok:
  assumes "\<forall>t\<in>set (datedTimes (map snd (getProgress storage (trackKey track)))). validTime t"
      and "datesValid host today 365"
  shows "computeTrackAnalytics host cache storage today track =
     Inr \<lparr>solved = length (filter (\<lambda>s. 0 < passes s) (map snd (getProgress storage (trackKey track)))),
          total_count = (case cache (trackKey track) of None \<Rightarrow> 0 | Some ps \<Rightarrow> length ps),
          attempts_sum = sum_list (map attempts (map snd (getProgress storage (trackKey track)))),
          passes_sum = sum_list (map passes (map snd (getProgress storage (trackKey track)))),
          accuracy = pct (sum_list (map passes (map snd (getProgress storage (trackKey track)))))
                         (sum_list (map attempts (map snd (getProgress storage (trackKey track))))),
          lastActive = (if datedTimes (map snd (getProgress storage (trackKey track))) = [] then None
                        else Some (isoText (Max (set (datedTimes (map snd (getProgress storage (trackKey track)))))))),
          streak = (if backKey host today 0 \<in> (\<lambda>t. take 10 (isoText t)) ` set (datedTimes (map snd (getProgress storage (trackKey track)))) then 1 else 0)
                   + length (takeWhile (\<lambda>i. backKey host today i \<in> (\<lambda>t. take 10 (isoText t)) ` set (datedTimes (map snd (getProgress storage (trackKey track))))) [1..<365])\<rparr>"
proof -
  define ss where "ss = map snd (getProgress storage (trackKey track))"
  define stats1 where "stats1 =
     (case cache (trackKey track) of
        None \<Rightarrow> \<lparr>solved = 0, total_count = 0, attempts_sum = 0, passes_sum = 0,
                    accuracy = 0, lastActive = None, streak = 0\<rparr>
      | Some ps \<Rightarrow> \<lparr>solved = 0, total_count = 0, attempts_sum = 0, passes_sum = 0,
                    accuracy = 0, lastActive = None, streak = 0\<rparr>\<lparr>total_count := length ps\<rparr>)"
  have v: "\<forall>t\<in>set (datedTimes ss). validTime t" using assms(1) by (simp add: ss_def)
  have la: "lastActive stats1 = map_option isoText None"
    by (simp add: stats1_def split: option.splits)
  have s1: "stats1 = \<lparr>solved = 0, total_count = (case cache (trackKey track) of None \<Rightarrow> 0 | Some ps \<Rightarrow> length ps),
       attempts_sum = 0, passes_sum = 0, accuracy = 0, lastActive = None, streak = 0\<rparr>"
    by (simp add: stats1_def split: option.splits)
  have r1: "statsLoop ss (stats1, None) =
     Inr (stats1\<lparr>attempts_sum := attempts_sum stats1 + sum_list (map attempts ss),
                passes_sum := passes_sum stats1 + sum_list (map passes ss),
                solved := solved stats1 + length (filter (\<lambda>s. 0 < passes s) ss),
                lastActive := map_option isoText (fold later (datedTimes ss) None)\<rparr>,
          fold later (datedTimes ss) None)"
    using v la by (rule statsLoop_ok)
  have r2: "daysLoop ss {} = Inr ({} \<union> (\<lambda>t. take 10 (isoText t)) ` set (datedTimes ss))"
    using v by (rule daysLoop_ok)
  show ?thesis
    unfolding computeTrackAnalytics_def Let_def ss_def [symmetric] stats1_def [symmetric] r1 r2
    by (simp add: calcStreak_eq [OF assms(2)] fold_later_None s1)
qed

lemma datesValid_example: "datesValid newYorkHost exampleToday 365"
  by code_simp

text \<open>
  Claim C3, as the code has it. For a progress record whose time stamps a Date can hold,
  read on any host at a time for which the Dates of the streak's walk are valid,
  \<^verbatim>\<open>computeTrackAnalytics\<close> returns \<open>total\<close> = the number of problems of the cached list
  (0 without one), \<open>solved\<close> = the number of entries with passes > 0, \<open>attempts\<close> and
  \<open>passes\<close> = the sums over all entries, \<open>lastActive\<close> = the text of the greatest time
  stamp (absent when there is none), and \<open>accuracy\<close> = 0 without attempts and otherwise
  \<^verbatim>\<open>Math.round\<close> of the binary64 product \<^verbatim>\<open>(passes / attempts) * 100\<close>: the quotient is
  rounded before it is multiplied, so the accuracy is the rounding of that product and
  not always of the exact value of \<open>100 * passes / attempts\<close>.
\<close>

theorem C3_track_stats_are_the_fold_of_the_record:
  assumes "\<forall>t\<in>set (datedTimes (map snd (getProgress storage (trackKey track)))). validTime t"
      and "datesValid host today 365"
  shows "\<exists>stats. computeTrackAnalytics host cache storage today
       track = Inr stats
      \<and> total_count stats = (case cache (trackKey track) of None \<Rightarrow> 0 | Some ps \<Rightarrow> length ps)
      \<and> solved stats = length (filter (\<lambda>s. 0 < passes s) (map snd (getProgress storage (trackKey track))))
      \<and> attempts_sum stats = sum_list (map attempts (map snd (getProgress storage (trackKey track))))
      \<and> passes_sum stats = sum_list (map passes (map snd (getProgress storage (trackKey track))))
      \<and> accuracy stats =
          (if attempts_sum stats = 0 then 0
           else Math_round (binary64 (binary64 (of_nat (passes_sum stats) / of_nat (attempts_sum stats)) * 100)))
      \<and> lastActive stats =
          (if datedTimes (map snd (getProgress storage (trackKey track))) = [] then None
           else Some (isoText (Max (set (datedTimes (map snd (getProgress storage (trackKey track))))))))"
proof -
  define ss where "ss = map snd (getProgress storage (trackKey track))"
  define stats where "stats =
     \<lparr>solved = length (filter (\<lambda>s. 0 < passes s) ss),
      total_count = (case cache (trackKey track) of None \<Rightarrow> 0 | Some ps \<Rightarrow> length ps),
      attempts_sum = sum_list (map attempts ss),
      passes_sum = sum_list (map passes ss),
      accuracy = pct (sum_list (map passes ss)) (sum_list (map attempts ss)),
      lastActive = (if datedTimes ss = [] then None else Some (isoText (Max (set (datedTimes ss))))),
      streak = (if backKey host today 0 \<in> (\<lambda>t. take 10 (isoText t)) ` set (datedTimes ss) then 1 else 0)
               + length (takeWhile (\<lambda>i. backKey host today i \<in> (\<lambda>t. take 10 (isoText t)) ` set (datedTimes ss)) [1..<365])\<rparr>"
  have r: "computeTrackAnalytics host cache storage today track = Inr stats"
    unfolding stats_def ss_def by (rule computeTrackAnalytics_ok [OF assms])
  have f: "total_count stats = (case cache (trackKey track) of None \<Rightarrow> 0 | Some ps \<Rightarrow> length ps)"
    "solved stats = length (filter (\<lambda>s. 0 < passes s) ss)"
    "attempts_sum stats = sum_list (map attempts ss)"
    "passes_sum stats = sum_list (map passes ss)"
    "lastActive stats = (if datedTimes ss = [] then None else Some (isoText (Max (set (datedTimes ss)))))"
    by (simp_all add: stats_def)
  have a: "accuracy stats =
      (if attempts_sum stats = 0 then 0
       else Math_round (binary64 (binary64 (of_nat (passes_sum stats) / of_nat (attempts_sum stats)) * 100)))"
    unfolding f(3,4) by (simp add: stats_def pct_def)
  show ?thesis
    using r f a unfolding ss_def by blast
qed

theorem C3_track_stats_are_the_fold_of_the_record_witness:
  "list_all validTime (datedTimes (map snd (getProgress statsStorage (trackKey exampleTrack))))
   \<and> datesValid newYorkHost exampleToday 365
   \<and> (\<exists>stats. computeTrackAnalytics newYorkHost exampleCache statsStorage exampleToday
       exampleTrack = Inr stats
      \<and> total_count stats = (case exampleCache (trackKey exampleTrack) of None \<Rightarrow> 0 | Some ps \<Rightarrow> length ps)
      \<and> solved stats = length (filter (\<lambda>s. 0 < passes s) (map snd (getProgress statsStorage (trackKey exampleTrack))))
      \<and> attempts_sum stats = sum_list (map attempts (map snd (getProgress statsStorage (trackKey exampleTrack))))
      \<and> passes_sum stats = sum_list (map passes (map snd (getProgress statsStorage (trackKey exampleTrack))))
      \<and> accuracy stats =
          (if attempts_sum stats = 0 then 0
           else Math_round (binary64 (binary64 (of_nat (passes_sum stats) / of_nat (attempts_sum stats)) * 100)))
      \<and> lastActive stats =
          (if datedTimes (map snd (getProgress statsStorage (trackKey exampleTrack))) = [] then None
           else Some (isoText (Max (set (datedTimes (map snd (getProgress statsStorage (trackKey exampleTrack)))))))))
   \<and> computeTrackAnalytics newYorkHost exampleCache statsStorage exampleToday
       exampleTrack
     = Inr \<lparr>solved = 2, total_count = 5, attempts_sum = 5, passes_sum = 3, accuracy = 60,
            lastActive = Some ''2026-11-01T19:30:00.000Z'', streak = 2\<rparr>"
proof -
  have h0: "datedTimes (map snd (getProgress statsStorage (trackKey exampleTrack)))
      = [1793561400000, 1793475000000]"
    by code_simp
  have h1: "\<forall>t\<in>set (datedTimes (map snd (getProgress statsStorage
       (trackKey exampleTrack)))). validTime t"
    by (simp add: h0 validTime_def maxTime_def)
  have h1': "list_all validTime (datedTimes (map snd (getProgress statsStorage (trackKey exampleTrack))))"
    by (simp add: h0 validTime_def maxTime_def)
  have h2: "datesValid newYorkHost exampleToday 365"
    by (rule datesValid_example)
  have c: "\<exists>stats. computeTrackAnalytics newYorkHost exampleCache statsStorage exampleToday
       exampleTrack = Inr stats
      \<and> total_count stats = (case exampleCache (trackKey exampleTrack) of None \<Rightarrow> 0 | Some ps \<Rightarrow> length ps)
      \<and> solved stats = length (filter (\<lambda>s. 0 < passes s) (map snd (getProgress statsStorage (trackKey exampleTrack))))
      \<and> attempts_sum stats = sum_list (map attempts (map snd (getProgress statsStorage (trackKey exampleTrack))))
      \<and> passes_sum stats = sum_list (map passes (map snd (getProgress statsStorage (trackKey exampleTrack))))
      \<and> accuracy stats =
          (if attempts_sum stats = 0 then 0
           else Math_round (binary64 (binary64 (of_nat (passes_sum stats) / of_nat (attempts_sum stats)) * 100)))
      \<and> lastActive stats =
          (if datedTimes (map snd (getProgress statsStorage (trackKey exampleTrack))) = [] then None
           else Some (isoText (Max (set (datedTimes (map snd (getProgress statsStorage (trackKey exampleTrack))))))))"
    using h1 h2 by (rule C3_track_stats_are_the_fold_of_the_record)
  have e: "computeTrackAnalytics newYorkHost exampleCache statsStorage exampleToday
       exampleTrack
     = Inr \<lparr>solved = 2, total_count = 5, attempts_sum = 5, passes_sum = 3, accuracy = 60,
            lastActive = Some ''2026-11-01T19:30:00.000Z'', streak = 2\<rparr>"
    by code_simp
  show ?thesis using h1' h2 c e by (intro conjI)
qed

text \<open>
  Claim C3 as the specification words it (accuracy = round(100 * passes / attempts))
  fails: with 23 passes in 40 attempts the exact value is 57.5, which every rounding to
  the nearest integer takes to 58, and the code returns 57, the binary64 product
  \<^verbatim>\<open>(23 / 40) * 100\<close> being just below 57.5.
\<close>

theorem C3_counterexample:
  "computeTrackAnalytics (fixedHost 0) (\<lambda>k. None)
     (\<lambda>k. if k = ''jc_progress''
          then Stored [(''p1'', \<lparr>attempts = 40, passes = 23, last_time = None\<rparr>)]
          else Missing)
     1793593800000
     \<lparr>trackTitle = ''Java Core'', problemsUrl = ''data/java-core.json'',
      trackKey = ''jc_progress'', key_attr = None, page = None\<rparr>
   = Inr \<lparr>solved = 1, total_count = 0, attempts_sum = 40, passes_sum = 23, accuracy = 57,
          lastActive = None, streak = 0\<rparr>
   \<and> specAccuracy 23 40 = 58"
  by code_simp

text \<open>
  Claim C7, as the code has it. Nothing clamps the accuracy. For a progress record whose
  time stamps a Date can hold, read at a time for which the Dates of the streak's walk
  are valid, the accuracy is an integer from 0 to 100 when the passes of the record do
  not exceed its attempts in total (as when every entry has passes \<open>\<le>\<close> attempts), and
  so is \<^verbatim>\<open>pct p a\<close> whenever \<open>p \<le> a\<close>.
\<close>

theorem C7_accuracy_within_0_and_100_when_passes_le_attempts:
  assumes "\<forall>t\<in>set (datedTimes (map snd (getProgress storage (trackKey track)))). validTime t"
      and "datesValid host today 365"
      and "sum_list (map passes (map snd (getProgress storage (trackKey track))))
           \<le> sum_list (map attempts (map snd (getProgress storage (trackKey track))))"
  shows "(\<exists>stats. computeTrackAnalytics host cache storage today track = Inr stats
      \<and> 0 \<le> accuracy stats \<and> accuracy stats \<le> 100)
    \<and> (\<forall>p a. p \<le> a \<longrightarrow> 0 \<le> pct p a \<and> pct p a \<le> 100)"
proof -
  define ss where "ss = map snd (getProgress storage (trackKey track))"
  define stats where "stats =
     \<lparr>solved = length (filter (\<lambda>s. 0 < passes s) ss),
      total_count = (case cache (trackKey track) of None \<Rightarrow> 0 | Some ps \<Rightarrow> length ps),
      attempts_sum = sum_list (map attempts ss),
      passes_sum = sum_list (map passes ss),
      accuracy = pct (sum_list (map passes ss)) (sum_list (map attempts ss)),
      lastActive = (if datedTimes ss = [] then None else Some (isoText (Max (set (datedTimes ss))))),
      streak = (if backKey host today 0 \<in> (\<lambda>t. take 10 (isoText t)) ` set (datedTimes ss) then 1 else 0)
               + length (takeWhile (\<lambda>i. backKey host today i \<in> (\<lambda>t. take 10 (isoText t)) ` set (datedTimes ss)) [1..<365])\<rparr>"
  have r: "computeTrackAnalytics host cache storage today track = Inr stats"
    unfolding stats_def ss_def by (rule computeTrackAnalytics_ok [OF assms(1,2)])
  have a: "accuracy stats = pct (sum_list (map passes ss)) (sum_list (map attempts ss))"
    by (simp add: stats_def)
  have "0 \<le> accuracy stats \<and> accuracy stats \<le> 100"
    unfolding a ss_def using assms(3) by (rule pct_range)
  then have "\<exists>stats. computeTrackAnalytics host cache storage today track = Inr stats
      \<and> 0 \<le> accuracy stats \<and> accuracy stats \<le> 100"
    using r by blast
  moreover have "\<forall>p a. p \<le> a \<longrightarrow> 0 \<le> pct p a \<and> pct p a \<le> 100"
    using pct_range by blast
  ultimately show ?thesis by (rule conjI)
qed

theorem C7_accuracy_within_0_and_100_when_passes_le_attempts_witness:
  "list_all validTime (datedTimes (map snd (getProgress unevenStorage (trackKey exampleTrack))))
   \<and> datesValid newYorkHost exampleToday 365
   \<and> sum_list (map passes (map snd (getProgress unevenStorage (trackKey exampleTrack))))
     \<le> sum_list (map attempts (map snd (getProgress unevenStorage (trackKey exampleTrack))))
   \<and> (\<exists>stats. computeTrackAnalytics newYorkHost (\<lambda>k. None) unevenStorage exampleToday
       exampleTrack = Inr stats
      \<and> 0 \<le> accuracy stats \<and> accuracy stats \<le> 100)
   \<and> 0 \<le> pct 3 6 \<and> pct 3 6 \<le> 100
   \<and> computeTrackAnalytics newYorkHost (\<lambda>k. None) unevenStorage exampleToday
       exampleTrack
     = Inr \<lparr>solved = 2, total_count = 0, attempts_sum = 6, passes_sum = 3, accuracy = 50,
            lastActive = None, streak = 0\<rparr>"
proof -
  have g: "map snd (getProgress unevenStorage (trackKey exampleTrack))
      = [\<lparr>attempts = 1, passes = 2, last_time = None\<rparr>, \<lparr>attempts = 5, passes = 1, last_time = None\<rparr>]"
    by (simp add: getProgress_def parseItem_def unevenStorage_def exampleTrack_def)
  have h0: "datedTimes (map snd (getProgress unevenStorage (trackKey exampleTrack))) = []"
    by (simp add: g datedTimes_Cons)
  have h1: "\<forall>t\<in>set (datedTimes (map snd (getProgress unevenStorage
       (trackKey exampleTrack)))). validTime t"
    by (simp add: h0)
  have h1': "list_all validTime (datedTimes (map snd (getProgress unevenStorage (trackKey exampleTrack))))"
    by (simp add: h0)
  have h2: "datesValid newYorkHost exampleToday 365"
    by (rule datesValid_example)
  have h4: "sum_list (map passes (map snd (getProgress unevenStorage
       (trackKey exampleTrack))))
     \<le> sum_list (map attempts (map snd (getProgress unevenStorage
       (trackKey exampleTrack))))"
    by (simp add: g)
  have h4': "sum_list (map passes (map snd (getProgress unevenStorage (trackKey exampleTrack))))
     \<le> sum_list (map attempts (map snd (getProgress unevenStorage (trackKey exampleTrack))))"
    by (simp add: g)
  note t = C7_accuracy_within_0_and_100_when_passes_le_attempts [OF h1 h2 h4, of "\<lambda>k. None"]
  have c: "\<exists>stats. computeTrackAnalytics newYorkHost (\<lambda>k. None) unevenStorage exampleToday
       exampleTrack = Inr stats
      \<and> 0 \<le> accuracy stats \<and> accuracy stats \<le> 100"
    using t by (rule conjunct1)
  have p: "0 \<le> pct 3 6 \<and> pct 3 6 \<le> 100"
    using t by (elim conjE allE [of _ 3] allE [of _ 6]) simp
  have e: "computeTrackAnalytics newYorkHost (\<lambda>k. None) unevenStorage exampleToday
       exampleTrack
     = Inr \<lparr>solved = 2, total_count = 0, attempts_sum = 6, passes_sum = 3, accuracy = 50,
            lastActive = None, streak = 0\<rparr>"
    by code_simp
  show ?thesis using h1' h2 h4' c p e by (intro conjI) simp_all
qed

text \<open>
  Claim C7 as the specification words it (the accuracy is within 0 and 100 for every
  record, also when passes exceed attempts) fails: one entry with 3 passes in 1 attempt
  gives the accuracy 300.
\<close>

theorem C7_counterexample:
  "computeTrackAnalytics (fixedHost 0) (\<lambda>k. None)
     (\<lambda>k. if k = ''jc_progress''
          then Stored [(''p1'', \<lparr>attempts = 1, passes = 3, last_time = None\<rparr>)]
          else Missing)
     1793593800000
     \<lparr>trackTitle = ''Java Core'', problemsUrl = ''data/java-core.json'',
      trackKey = ''jc_progress'', key_attr = None, page = None\<rparr>
   = Inr \<lparr>solved = 1, total_count = 0, attempts_sum = 1, passes_sum = 3, accuracy = 300,
          lastActive = None, streak = 0\<rparr>
   \<and> pct 3 1 = 300"
  by code_simp

section \<open>The day key of a time stamp\<close>






section \<open>Properties of the multi-track dashboard\<close>

lemma sorted_desc_sortRecent:
  "sorted_wrt (\<lambda>a b. when_time b \<le> when_time a) (sortRecent rs)"
proof -
  have "sorted (map (\<lambda>r. - when_time r) (sortRecent rs))"
    unfolding sortRecent_def by (rule sorted_sort_key)
  then show ?thesis by (simp add: sorted_map)
qed

lemma take_drop_desc:
  assumes "sorted_wrt (\<lambda>a b. when_time b \<le> when_time a) xs"
  shows "\<forall>a\<in>set (take n xs). \<forall>b\<in>set (drop n xs). when_time b \<le> when_time a"
proof -
  have "sorted_wrt (\<lambda>a b. when_time b \<le> when_time a) (take n xs @ drop n xs)"
    using assms by simp
  then show ?thesis by (simp only: sorted_wrt_append) blast
qed

lemma recentOf_spec:
  "recentOf s problems progress =
     map (specRecord s problems) (filter (\<lambda>e. hasLast (snd e)) progress)"
proof (induction progress)
  case Nil
  then show ?case by (simp add: recentOf_def map_filter_simps)
next
  case (Cons e es)
  then show ?case
    by (cases e)
      (auto simp: recentOf_def map_filter_simps recentItem_def specRecord_def hasLast_def
         problemTitle_def split: option.splits)
qed

lemma mset_concat_map:
  "mset (concat (map f zs)) = sum_mset (image_mset (\<lambda>x. mset (f x)) (mset zs))"
  by (induction zs) simp_all

lemma pushedRecent_mset:
  assumes "mset order = mset [0..<length loaded]"
  shows "mset (pushedRecent storage loaded order) = mset (specRecords storage loaded)"
proof -
  define g where "g = (\<lambda>(s, problems).
     map (specRecord s problems) (filter (\<lambda>e. hasLast (snd e)) (getProgress storage (trackKey s))))"
  define f where "f i = (if i < length loaded then g (loaded ! i) else [])" for i
  have p: "pushedRecent storage loaded order = concat (map f order)"
    unfolding pushedRecent_def f_def g_def
    by (simp add: recentOf_spec split: prod.splits cong: map_cong if_cong)
  have "map f [0..<length loaded] = map g loaded"
    by (rule nth_equalityI) (simp_all add: f_def)
  then have q: "specRecords storage loaded = concat (map f [0..<length loaded])"
    by (simp add: specRecords_def g_def)
  show ?thesis
    unfolding p q mset_concat_map by (simp only: assms)
qed

lemma mset_take_drop: "mset xs = mset (take n xs) + mset (drop n xs)"
  by (metis append_take_drop_id mset_append)

text \<open>
  Claim C5. For tracks whose problem lists are loaded, the callbacks push one record for
  every pair of a problem id and a statistic with a last time stamp, of every track:
  \<^verbatim>\<open>when\<close> is that time stamp, \<^verbatim>\<open>track\<close> the track's title, \<^verbatim>\<open>passed\<close> whether the
  statistic has passes > 0, and \<^verbatim>\<open>title\<close> the title of the problem with that id (the
  id where the list has no such problem or an empty title). Whatever the order in which
  the fetches resolve, the feed is the first ten of these records in descending order of
  \<^verbatim>\<open>when\<close>: it has ten entries, or all of them when there are fewer, each a pushed
  record, in non-increasing order of \<^verbatim>\<open>when\<close>, and no record left out is more recent
  than one that is kept. With at least 15 dated entries the feed has exactly 10. It is
  the feed that \<^verbatim>\<open>renderDashboardMulti\<close> renders when it has loaded these lists.
\<close>

theorem C5_recent_feed_is_the_ten_most_recent:
  assumes "mset order = mset [0..<length loaded]"
  shows "mset (pushedRecent storage loaded order) = mset (specRecords storage loaded)
     \<and> recentFeed storage loaded order = take 10 (sortRecent (pushedRecent storage loaded order))
     \<and> length (recentFeed storage loaded order) = min 10 (length (specRecords storage loaded))
     \<and> (15 \<le> length (specRecords storage loaded) \<longrightarrow> length (recentFeed storage loaded order) = 10)
     \<and> sorted_wrt (\<lambda>a b. when_time b \<le> when_time a) (recentFeed storage loaded order)
     \<and> mset (recentFeed storage loaded order) \<subseteq># mset (specRecords storage loaded)
     \<and> (\<forall>a\<in>set (recentFeed storage loaded order).
          \<forall>b\<in>#(mset (specRecords storage loaded) - mset (recentFeed storage loaded order)).
            when_time b \<le> when_time a)
     \<and> (\<forall>fetch sections. loadAll fetch sections = Inr loaded \<longrightarrow>
          (\<exists>d. renderDashboardMulti fetch storage sections order = Inr d
             \<and> recent d = recentFeed storage loaded order))"
proof -
  define pushed where "pushed = pushedRecent storage loaded order"
  define sorted_all where "sorted_all = sortRecent pushed"
  define feed where "feed = recentFeed storage loaded order"
  have fd: "feed = take 10 sorted_all"
    by (simp add: feed_def recentFeed_def sorted_all_def pushed_def)
  have m: "mset pushed = mset (specRecords storage loaded)"
    unfolding pushed_def using assms by (rule pushedRecent_mset)
  have ms: "mset sorted_all = mset (specRecords storage loaded)"
    using m by (simp add: sorted_all_def sortRecent_def)
  have "size (mset sorted_all) = size (mset (specRecords storage loaded))"
    by (simp only: ms)
  then have ls: "length sorted_all = length (specRecords storage loaded)"
    by simp
  have len: "length feed = min 10 (length (specRecords storage loaded))"
    by (simp add: fd ls min.commute)
  have l15: "15 \<le> length (specRecords storage loaded) \<longrightarrow> length feed = 10"
    using len by simp
  have srt: "sorted_wrt (\<lambda>a b. when_time b \<le> when_time a) sorted_all"
    unfolding sorted_all_def by (rule sorted_desc_sortRecent)
  then have s10: "sorted_wrt (\<lambda>a b. when_time b \<le> when_time a) feed"
    unfolding fd by (rule sorted_wrt_take)
  have split: "mset (specRecords storage loaded) = mset feed + mset (drop 10 sorted_all)"
    unfolding fd ms [symmetric] by (rule mset_take_drop)
  have sub: "mset feed \<subseteq># mset (specRecords storage loaded)"
    unfolding split by (rule mset_subset_eq_add_left)
  have rest: "mset (specRecords storage loaded) - mset feed = mset (drop 10 sorted_all)"
    unfolding split by simp
  have td: "\<forall>a\<in>set (take 10 sorted_all). \<forall>b\<in>set (drop 10 sorted_all). when_time b \<le> when_time a"
    using srt by (rule take_drop_desc)
  have top: "\<forall>a\<in>set feed. \<forall>b\<in>#(mset (specRecords storage loaded) - mset feed).
      when_time b \<le> when_time a"
    using td by (simp add: rest fd [symmetric])
  have link: "\<exists>d. renderDashboardMulti fetch storage sections order = Inr d \<and> recent d = feed"
    if "loadAll fetch sections = Inr loaded" for fetch sections
    using that by (simp add: renderDashboardMulti_def Let_def feed_def)
  show ?thesis
    using m fd len l15 s10 sub top link
    unfolding feed_def [symmetric] pushed_def [symmetric] sorted_all_def [symmetric]
    by blast
qed

theorem C5_recent_feed_is_the_ten_most_recent_witness:
  "mset [1, 0] = mset [0..<length exampleLoaded]
   \<and> length (specRecords exampleStorage exampleLoaded) = 16
   \<and> loadAll exampleFetch exampleSections = Inr exampleLoaded
   \<and> length (recentFeed exampleStorage exampleLoaded [1, 0]) = 10
   \<and> sorted_wrt (\<lambda>a b. when_time b \<le> when_time a) (recentFeed exampleStorage exampleLoaded [1, 0])
   \<and> mset (recentFeed exampleStorage exampleLoaded [1, 0])
        \<subseteq># mset (specRecords exampleStorage exampleLoaded)
   \<and> (\<exists>d. renderDashboardMulti exampleFetch exampleStorage exampleSections [1, 0] = Inr d
          \<and> recent d = recentFeed exampleStorage exampleLoaded [1, 0])
   \<and> recentFeed exampleStorage exampleLoaded [1, 0]
       = [\<lparr>when_time = 1793077400000, item_pid = ''b5'', item_track = ''Modern Java'',
            passed = False, item_title = ''b5''\<rparr>,
          \<lparr>when_time = 1793075600000, item_pid = ''a3'', item_track = ''Java Core'',
            passed = True, item_title = ''Reverse a String''\<rparr>,
          \<lparr>when_time = 1793073800000, item_pid = ''b2'', item_track = ''Modern Java'',
            passed = True, item_title = ''b2''\<rparr>,
          \<lparr>when_time = 1793068400000, item_pid = ''a6'', item_track = ''Java Core'',
            passed = False, item_title = ''a6''\<rparr>,
          \<lparr>when_time = 1793061200000, item_pid = ''a9'', item_track = ''Java Core'',
            passed = True, item_title = ''a9''\<rparr>,
          \<lparr>when_time = 1793050400000, item_pid = ''a2'', item_track = ''Java Core'',
            passed = False, item_title = ''a2''\<rparr>,
          \<lparr>when_time = 1793045000000, item_pid = ''b7'', item_track = ''Modern Java'',
            passed = False, item_title = ''b7''\<rparr>,
          \<lparr>when_time = 1793043200000, item_pid = ''a5'', item_track = ''Java Core'',
            passed = True, item_title = ''a5''\<rparr>,
          \<lparr>when_time = 1793041400000, item_pid = ''b4'', item_track = ''Modern Java'',
            passed = True, item_title = ''b4''\<rparr>,
          \<lparr>when_time = 1793037800000, item_pid = ''b1'', item_track = ''Modern Java'',
            passed = False, item_title = ''b1''\<rparr>]"
proof -
  have n2: "length exampleLoaded = 2" by (simp add: exampleLoaded_def)
  have u: "[0..<2] = [0, Suc 0]" by (simp add: upt_rec numeral_2_eq_2)
  have h: "mset [1, 0] = mset [0..<length exampleLoaded]"
    by (simp add: n2 u)
  have n: "length (specRecords exampleStorage exampleLoaded) = 16"
    by code_simp
  have l: "loadAll exampleFetch exampleSections = Inr exampleLoaded"
    by code_simp
  note t = C5_recent_feed_is_the_ten_most_recent [OF h, of exampleStorage]
  have "15 \<le> length (specRecords exampleStorage exampleLoaded) \<longrightarrow>
      length (recentFeed exampleStorage exampleLoaded [1, 0]) = 10"
    using t by (elim conjE)
  then have l10: "length (recentFeed exampleStorage exampleLoaded [1, 0]) = 10"
    by (simp add: n)
  have s: "sorted_wrt (\<lambda>a b. when_time b \<le> when_time a) (recentFeed exampleStorage exampleLoaded [1, 0])"
    using t by (elim conjE)
  have sub: "mset (recentFeed exampleStorage exampleLoaded [1, 0])
        \<subseteq># mset (specRecords exampleStorage exampleLoaded)"
    using t by (elim conjE)
  have "\<forall>fetch sections. loadAll fetch sections = Inr exampleLoaded \<longrightarrow>
          (\<exists>d. renderDashboardMulti fetch exampleStorage sections [1, 0] = Inr d
             \<and> recent d = recentFeed exampleStorage exampleLoaded [1, 0])"
    using t by (elim conjE)
  then have r: "\<exists>d. renderDashboardMulti exampleFetch exampleStorage exampleSections [1, 0] = Inr d
          \<and> recent d = recentFeed exampleStorage exampleLoaded [1, 0]"
    using l by blast
  have e: "recentFeed exampleStorage exampleLoaded [1, 0]
       = [\<lparr>when_time = 1793077400000, item_pid = ''b5'', item_track = ''Modern Java'',
            passed = False, item_title = ''b5''\<rparr>,
          \<lparr>when_time = 1793075600000, item_pid = ''a3'', item_track = ''Java Core'',
            passed = True, item_title = ''Reverse a String''\<rparr>,
          \<lparr>when_time = 1793073800000, item_pid = ''b2'', item_track = ''Modern Java'',
            passed = True, item_title = ''b2''\<rparr>,
          \<lparr>when_time = 1793068400000, item_pid = ''a6'', item_track = ''Java Core'',
            passed = False, item_title = ''a6''\<rparr>,
          \<lparr>when_time = 1793061200000, item_pid = ''a9'', item_track = ''Java Core'',
            passed = True, item_title = ''a9''\<rparr>,
          \<lparr>when_time = 1793050400000, item_pid = ''a2'', item_track = ''Java Core'',
            passed = False, item_title = ''a2''\<rparr>,
          \<lparr>when_time = 1793045000000, item_pid = ''b7'', item_track = ''Modern Java'',
            passed = False, item_title = ''b7''\<rparr>,
          \<lparr>when_time = 1793043200000, item_pid = ''a5'', item_track = ''Java Core'',
            passed = True, item_title = ''a5''\<rparr>,
          \<lparr>when_time = 1793041400000, item_pid = ''b4'', item_track = ''Modern Java'',
            passed = True, item_title = ''b4''\<rparr>,
          \<lparr>when_time = 1793037800000, item_pid = ''b1'', item_track = ''Modern Java'',
            passed = False, item_title = ''b1''\<rparr>]"
    by code_simp
  show ?thesis using h n l l10 s sub r e by (intro conjI)
qed

text \<open>
  Claim C6 against the code. \<^verbatim>\<open>renderDashboardMulti\<close> awaits \<^verbatim>\<open>loadJson\<close> for every
  section without catching its failure: when the problem list of the second of two
  tracks fails to load, the whole dashboard is rejected with that error and no overall
  total is produced, although the first track loaded and both progress records are
  readable.
\<close>

theorem C6_fetch_failure_rejects_the_dashboard:
  "renderDashboardMulti exampleFetchFailing exampleStorage exampleSections [0, 1] = Inl FetchError
   \<and> exampleFetchFailing (problemsUrl (exampleSections ! 0)) = Inr exampleProblems
   \<and> exampleFetchFailing (problemsUrl (exampleSections ! 1)) = Inl FetchError"
  by code_simp

text \<open>
  The analytics cards take the other path: \<^verbatim>\<open>preloadProblemsForTracks\<close> catches the
  failure and stores \<^verbatim>\<open>null\<close>, and \<^verbatim>\<open>computeTrackAnalytics\<close> then gives the failed
  track the total 0 with its attempts, passes and solved count computed from its
  progress record, while the other track has its full statistics.
\<close>

lemma analytics_cards_tolerate_a_failed_fetch:
  "map (\<lambda>t. map_sum id (\<lambda>st. (total_count st, solved st, attempts_sum st, passes_sum st))
          (computeTrackAnalytics (fixedHost 0)
             (preloadProblemsForTracks exampleFetchFailing exampleSections (\<lambda>k. None))
             exampleStorage 1793593800000 t))
     exampleSections
   = [Inr (3, 5, 20, 5),
      Inr (0, 3, 28, 3)]"
  by code_simp

end
